theory Spec2Isabelle
  imports Main
begin

section \<open>RDF terms, statements and graphs\<close>

text \<open>
  The program is \<^verbatim>\<open>src/dimm.py\<close>: the class \<^verbatim>\<open>D2RParser\<close> merges D2RQ mapping files
  into one rdflib graph. An rdflib term is a URI reference, a blank node or a literal;
  \<^verbatim>\<open>str(res)\<close> gives the text it carries.
\<close>

datatype node = URIRef string | BNode string | Literal string

type_synonym triple = "node \<times> node \<times> node"

fun node_str :: "node \<Rightarrow> string" where
  "node_str (URIRef u) = u"
| "node_str (BNode b) = b"
| "node_str (Literal l) = l"

fun is_BNode :: "node \<Rightarrow> bool" where
  "is_BNode (BNode b) = True"
| "is_BNode (URIRef u) = False"
| "is_BNode (Literal l) = False"

text \<open>
  An \<^verbatim>\<open>rdflib.Graph\<close> is a set of statements with a namespace manager. The store gives
  no promise about the order in which it yields statements, so a graph is modelled as
  the list of its statements in the order the store yields them, without repetition;
  every result below that is stated for all graphs is thereby stated for every order.
  A query on the store yields from a copy taken when the query starts, so a loop
  that removes statements while it runs still visits every statement that was there
  at its start.
\<close>

record graph =
  store :: "triple list"
  namespace_manager :: "(string \<times> string) list"

type_synonym pattern = "node option \<times> node option \<times> node option"

text \<open>A pattern position that is \<^verbatim>\<open>None\<close> matches every term.\<close>

fun matches :: "pattern \<Rightarrow> triple \<Rightarrow> bool" where
  "matches (ps, pp, po) (s, p, ob) =
     ((ps = None \<or> ps = Some s) \<and> (pp = None \<or> pp = Some p) \<and> (po = None \<or> po = Some ob))"

definition graph_triples :: "pattern \<Rightarrow> triple list \<Rightarrow> triple list" where
  "graph_triples pat g = filter (matches pat) g"

definition graph_subjects :: "node option \<Rightarrow> node option \<Rightarrow> triple list \<Rightarrow> node list" where
  "graph_subjects p ob g = map fst (graph_triples (None, p, ob) g)"

definition graph_objects :: "node option \<Rightarrow> node option \<Rightarrow> triple list \<Rightarrow> node list" where
  "graph_objects s p g = map (\<lambda>t. snd (snd t)) (graph_triples (s, p, None) g)"

definition subject_objects :: "node \<Rightarrow> triple list \<Rightarrow> (node \<times> node) list" where
  "subject_objects p g = map (\<lambda>t. (fst t, snd (snd t))) (graph_triples (None, Some p, None) g)"

definition predicate_objects :: "node \<Rightarrow> triple list \<Rightarrow> (node \<times> node) list" where
  "predicate_objects s g = map snd (graph_triples (Some s, None, None) g)"

definition graph_add :: "triple \<Rightarrow> triple list \<Rightarrow> triple list" where
  "graph_add t g = (if t \<in> set g then g else g @ [t])"

definition graph_remove :: "pattern \<Rightarrow> triple list \<Rightarrow> triple list" where
  "graph_remove pat g = filter (\<lambda>t. \<not> matches pat t) g"

text \<open>
  Modelled from the spec: the namespace registry of rdflib is not part of the
  repository; the specification describes it as a mapping from prefix to base in which
  the last writer for a prefix wins.
\<close>

definition bind :: "string \<times> string \<Rightarrow> (string \<times> string) list \<Rightarrow> (string \<times> string) list" where
  "bind cur_ns reg = filter (\<lambda>b. fst b \<noteq> fst cur_ns) reg @ [cur_ns]"

subsection \<open>The vocabulary\<close>

definition d2rq :: "string \<Rightarrow> node" where
  "d2rq name = URIRef (''http://www.wiwiss.fu-berlin.de/suhl/bizer/D2RQ/0.1#'' @ name)"

definition RDF_type :: node where
  "RDF_type = URIRef ''http://www.w3.org/1999/02/22-rdf-syntax-ns#type''"

section \<open>The URI namer\<close>

text \<open>
  \<^verbatim>\<open>local_name\<close> applies two regular expressions with \<^verbatim>\<open>re.search\<close>, without flags.
  Without \<^verbatim>\<open>re.DOTALL\<close> the atom \<^verbatim>\<open>.\<close> matches every character but the line feed, and
  without \<^verbatim>\<open>re.MULTILINE\<close> the anchor \<^verbatim>\<open>$\<close> matches at the end of the string and just
  before a line feed that ends the string.
\<close>

definition LF :: char where
  "LF = CHR 0x0A"

text \<open>
  The tail \<^verbatim>\<open>(.+)$\<close> of a pattern, matched against the rest of the string: the group is
  the longest run of characters other than the line feed; it must not be empty, and
  what follows it must be nothing or one final line feed.
\<close>

definition dot_plus_end :: "string \<Rightarrow> string option" where
  "dot_plus_end rest =
     (let body = takeWhile (\<lambda>c. c \<noteq> LF) rest;
          after = dropWhile (\<lambda>c. c \<noteq> LF) rest
      in if body \<noteq> [] \<and> (after = [] \<or> after = [LF]) then Some body else None)"

text \<open>
  \<^verbatim>\<open>re.search("^[^#]*#(.+)$", cur_uri)\<close>, group 1. The class \<^verbatim>\<open>[^#]*\<close> cannot step
  over a \<^verbatim>\<open>#\<close>, so the \<^verbatim>\<open>#\<close> of the pattern is the first one of the string.
\<close>

definition sharp_match :: "string \<Rightarrow> string option" where
  "sharp_match cur_uri =
     (case dropWhile (\<lambda>c. c \<noteq> CHR ''#'') cur_uri of
        [] \<Rightarrow> None
      | c # rest \<Rightarrow> dot_plus_end rest)"

text \<open>
  \<^verbatim>\<open>re.search("^.*/([^/]+)$", cur_uri)\<close>, group 1. The group has no \<^verbatim>\<open>/\<close> and runs to
  the end, so the \<^verbatim>\<open>/\<close> of the pattern is the last one of the string; the group is all
  that follows it and must not be empty; \<^verbatim>\<open>.*\<close> must cover all that precedes it, so
  that part has no line feed.
\<close>

definition slash_match :: "string \<Rightarrow> string option" where
  "slash_match cur_uri =
     (let last_part = rev (takeWhile (\<lambda>c. c \<noteq> CHR ''/'') (rev cur_uri));
          head_rev = dropWhile (\<lambda>c. c \<noteq> CHR ''/'') (rev cur_uri)
      in case head_rev of
           [] \<Rightarrow> None
         | c # before_rev \<Rightarrow>
             if last_part \<noteq> [] \<and> LF \<notin> set before_rev then Some last_part else None)"

definition local_name :: "string \<Rightarrow> string" where
  "local_name res =
     (let cur_uri = res;
          cur_uri = (case sharp_match cur_uri of Some g \<Rightarrow> g | None \<Rightarrow> cur_uri);
          cur_uri = (case slash_match cur_uri of Some g \<Rightarrow> g | None \<Rightarrow> cur_uri)
      in cur_uri)"

text \<open>What follows the first separator (empty when there is none).\<close>

definition after_first :: "char \<Rightarrow> string \<Rightarrow> string" where
  "after_first sep u = tl (dropWhile (\<lambda>c. c \<noteq> sep) u)"

text \<open>
  The algorithm as the specification words it: after the last fragment separator if
  there is one, then after the last path separator if there is one.
\<close>

definition after_last :: "char \<Rightarrow> string \<Rightarrow> string" where
  "after_last sep u = rev (takeWhile (\<lambda>c. c \<noteq> sep) (rev u))"

definition local_name_spec :: "string \<Rightarrow> string" where
  "local_name_spec res =
     (let u = (if CHR ''#'' \<in> set res then after_last (CHR ''#'') res else res)
      in if CHR ''/'' \<in> set u then after_last (CHR ''/'') u else u)"

section \<open>The cleanup passes\<close>

text \<open>
  \<^verbatim>\<open>clear_orphan_blank_nodes\<close>: one pass over the subjects the graph had when the pass
  started; the membership test and the removal act on the graph as it is by then.
\<close>

fun clear_orphan_loop :: "node list \<Rightarrow> triple list \<Rightarrow> triple list" where
  "clear_orphan_loop [] fm = fm"
| "clear_orphan_loop (s # ss) fm =
     clear_orphan_loop ss
       (if is_BNode s \<and> s \<notin> set (graph_objects None None fm)
        then graph_remove (Some s, None, None) fm else fm)"

definition clear_orphan_blank_nodes :: "triple list \<Rightarrow> triple list" where
  "clear_orphan_blank_nodes fm = clear_orphan_loop (graph_subjects None None fm) fm"

text \<open>\<^verbatim>\<open>clear_d2rq_entity\<close>: the inner loop removes the statements one by one.\<close>

fun remove_each :: "triple list \<Rightarrow> triple list \<Rightarrow> triple list" where
  "remove_each [] fm = fm"
| "remove_each ((s, p, ob) # ts) fm = remove_each ts (graph_remove (Some s, Some p, Some ob) fm)"

definition clear_d2rq_entity :: "node \<Rightarrow> node \<Rightarrow> triple list \<Rightarrow> triple list" where
  "clear_d2rq_entity cur_d2rq_entity cur_reference fm =
     (if cur_reference \<notin> set (graph_subjects (Some RDF_type) None fm)
      then remove_each (graph_triples (Some cur_d2rq_entity, None, None) fm) fm
      else fm)"

fun clear_entities :: "(node \<times> node) list \<Rightarrow> triple list \<Rightarrow> triple list" where
  "clear_entities [] fm = fm"
| "clear_entities ((s, ob) # sos) fm = clear_entities sos (clear_d2rq_entity s ob fm)"

definition clear_orphan_property_bridges :: "triple list \<Rightarrow> triple list" where
  "clear_orphan_property_bridges fm =
     (let fm = clear_entities (subject_objects (d2rq ''refersToClassMap'') fm) fm;
          fm = clear_entities (subject_objects (d2rq ''translateWith'') fm) fm;
          fm = clear_entities (subject_objects (d2rq ''dataStorage'') fm) fm
      in fm)"

section \<open>Paths and the file system\<close>

text \<open>
  The program runs on a POSIX system: \<^verbatim>\<open>os.sep\<close> is \<^verbatim>\<open>/\<close>. The two functions of
  \<^verbatim>\<open>os.path\<close> work on the text of a path alone.
\<close>

definition dirname :: "string \<Rightarrow> string" where
  "dirname p =
     (let head = rev (dropWhile (\<lambda>c. c \<noteq> CHR ''/'') (rev p))
      in if head \<noteq> [] \<and> \<not> list_all (\<lambda>c. c = CHR ''/'') head
         then rev (dropWhile (\<lambda>c. c = CHR ''/'') (rev head))
         else head)"

definition basename :: "string \<Rightarrow> string" where
  "basename p = rev (takeWhile (\<lambda>c. c \<noteq> CHR ''/'') (rev p))"

definition path_join :: "string \<Rightarrow> string \<Rightarrow> string" where
  "path_join a b =
     (if b \<noteq> [] \<and> hd b = CHR ''/'' then b
      else if a = [] \<or> last a = CHR ''/'' then a @ b
      else a @ ''/'' @ b)"

definition startswith :: "string \<Rightarrow> string \<Rightarrow> bool" where
  "startswith s pre = (take (length pre) s = pre)"

fun split_sep :: "string \<Rightarrow> string list" where
  "split_sep [] = [[]]"
| "split_sep (c # cs) =
     (if c = CHR ''/'' then [] # split_sep cs
      else (case split_sep cs of [] \<Rightarrow> [[c]] | x # xs \<Rightarrow> (c # x) # xs))"

text \<open>
  The file system is a tree of directories and regular files; a file carries its bytes.
  There are no symbolic links and no permissions. A directory lists its entries in the
  order \<^verbatim>\<open>os.listdir\<close> gives them.
\<close>

datatype fsnode = File string | Dir "(string \<times> fsnode) list"

fun is_Dir :: "fsnode \<Rightarrow> bool" where
  "is_Dir (Dir es) = True"
| "is_Dir (File b) = False"

fun lookup :: "fsnode \<Rightarrow> string list \<Rightarrow> fsnode option" where
  "lookup n [] = Some n"
| "lookup n (c # cs) =
     (case n of
        File b \<Rightarrow> None
      | Dir es \<Rightarrow> (case map_of es c of None \<Rightarrow> None | Some m \<Rightarrow> lookup m cs))"

text \<open>
  A directory is read by name, and the first entry of a name is the one that counts;
  the three functions below replace, delete and change that entry.
\<close>

fun set_entry :: "string \<Rightarrow> fsnode \<Rightarrow> (string \<times> fsnode) list \<Rightarrow> (string \<times> fsnode) list" where
  "set_entry c m [] = [(c, m)]"
| "set_entry c m (e # es) = (if fst e = c then (c, m) # es else e # set_entry c m es)"

fun del_entry :: "string \<Rightarrow> (string \<times> fsnode) list \<Rightarrow> (string \<times> fsnode) list" where
  "del_entry c [] = []"
| "del_entry c (e # es) = (if fst e = c then es else e # del_entry c es)"

fun map_entry :: "string \<Rightarrow> (fsnode \<Rightarrow> fsnode) \<Rightarrow> (string \<times> fsnode) list \<Rightarrow> (string \<times> fsnode) list" where
  "map_entry c f [] = []"
| "map_entry c f (e # es) = (if fst e = c then (c, f (snd e)) # es else e # map_entry c f es)"

text \<open>\<open>put n cs v\<close> writes (\<open>Some\<close>) or deletes (\<open>None\<close>) the entry at the path \<open>cs\<close>.\<close>

fun put :: "fsnode \<Rightarrow> string list \<Rightarrow> fsnode option \<Rightarrow> fsnode" where
  "put n [] v = (case v of Some m \<Rightarrow> m | None \<Rightarrow> n)"
| "put n (c # cs) v =
     (case n of
        File b \<Rightarrow> File b
      | Dir es \<Rightarrow>
          (if cs = [] then
             Dir (case v of Some m \<Rightarrow> set_entry c m es | None \<Rightarrow> del_entry c es)
           else Dir (map_entry c (\<lambda>m. put m cs v) es)))"

datatype fmt = JsonLd | RdfXml | Turtle | Trig

text \<open>
  The world the program runs in: the file tree, the working directory (as the names on
  the way from the root), and the parser of rdflib. \<open>rdf_parser w path bytes format g\<close>
  stands for \<^verbatim>\<open>g.load(path, format=format)\<close> on a file with these bytes: the flag tells whether the call
  returned (\<open>True\<close>) or raised, and the graph is \<open>g\<close> as the call left it. The parser
  sees the path because rdflib's behaviour can depend on the characters of the path.
  It is a function: a second load of the same bytes from the same path gives the same
  statements, with the same blank node identifiers.
\<close>

record world =
  fs_root :: fsnode
  fs_cwd :: "string list"
  rdf_parser :: "string \<Rightarrow> string \<Rightarrow> fmt \<Rightarrow> graph \<Rightarrow> bool \<times> graph"

definition is_dir_at :: "fsnode \<Rightarrow> string list \<Rightarrow> bool" where
  "is_dir_at root cur = (case lookup root cur of Some (Dir es) \<Rightarrow> True | Some (File b) \<Rightarrow> False | None \<Rightarrow> False)"

text \<open>
  Path resolution, one component at a time: every step starts in a directory; an empty
  component and \<^verbatim>\<open>.\<close> stay, \<^verbatim>\<open>..\<close> goes up (the root is its own parent), a name goes down.
  The last name need not exist.
\<close>

fun follow :: "fsnode \<Rightarrow> string list \<Rightarrow> string list \<Rightarrow> string list option" where
  "follow root cur [] = Some cur"
| "follow root cur (c # cs) =
     (if is_dir_at root cur then
        (if c = [] \<or> c = ''.'' then follow root cur cs
         else if c = ''..'' then follow root (butlast cur) cs
         else follow root (cur @ [c]) cs)
      else None)"

definition resolve :: "world \<Rightarrow> string \<Rightarrow> string list option" where
  "resolve w p =
     (if p = [] then None
      else follow (fs_root w) (if hd p = CHR ''/'' then [] else fs_cwd w) (split_sep p))"

definition stat :: "world \<Rightarrow> string \<Rightarrow> fsnode option" where
  "stat w p = (case resolve w p of None \<Rightarrow> None | Some cs \<Rightarrow> lookup (fs_root w) cs)"

definition isfile :: "world \<Rightarrow> string \<Rightarrow> bool" where
  "isfile w p = (case stat w p of Some (File b) \<Rightarrow> True | Some (Dir es) \<Rightarrow> False | None \<Rightarrow> False)"

definition isdir :: "world \<Rightarrow> string \<Rightarrow> bool" where
  "isdir w p = (case stat w p of Some (Dir es) \<Rightarrow> True | Some (File b) \<Rightarrow> False | None \<Rightarrow> False)"

definition read_file :: "world \<Rightarrow> string \<Rightarrow> string option" where
  "read_file w p = (case stat w p of Some (File b) \<Rightarrow> Some b | Some (Dir es) \<Rightarrow> None | None \<Rightarrow> None)"

text \<open>
  \<^verbatim>\<open>os.walk(top)\<close>, top-down: a directory yields its path, its subdirectories and its
  other entries, and then the walk of each subdirectory follows. A top that is not a
  directory yields nothing.
\<close>

fun walk_node :: "string \<Rightarrow> fsnode \<Rightarrow> (string \<times> string list \<times> string list) list" where
  "walk_node cur_dir (File b) = []"
| "walk_node cur_dir (Dir es) =
     (cur_dir, map fst (filter (\<lambda>e. is_Dir (snd e)) es), map fst (filter (\<lambda>e. \<not> is_Dir (snd e)) es))
     # concat (map (\<lambda>e. walk_node (path_join cur_dir (fst e)) (snd e)) es)"

definition os_walk :: "world \<Rightarrow> string \<Rightarrow> (string \<times> string list \<times> string list) list" where
  "os_walk w top_dir = (case stat w top_dir of Some n \<Rightarrow> walk_node top_dir n | None \<Rightarrow> [])"

text \<open>
  \<^verbatim>\<open>shutil.copyfile\<close> and \<^verbatim>\<open>os.remove\<close>; \<open>None\<close> when the call raises: the source is
  not a readable file, both paths name the same file, the target is a directory or
  its directory does not exist; the path to remove is not a file.
\<close>

definition copyfile :: "world \<Rightarrow> string \<Rightarrow> string \<Rightarrow> world option" where
  "copyfile w src dst =
     (case read_file w src of
        None \<Rightarrow> None
      | Some bytes \<Rightarrow>
          (case resolve w dst of
             None \<Rightarrow> None
           | Some cs \<Rightarrow>
               if cs = [] \<or> resolve w src = Some cs \<or> is_dir_at (fs_root w) cs then None
               else Some (w\<lparr>fs_root := put (fs_root w) cs (Some (File bytes))\<rparr>)))"

definition os_remove :: "world \<Rightarrow> string \<Rightarrow> world option" where
  "os_remove w p =
     (case resolve w p of
        None \<Rightarrow> None
      | Some cs \<Rightarrow>
          if isfile w p then Some (w\<lparr>fs_root := put (fs_root w) cs None\<rparr>) else None)"

section \<open>Loading and validating a file\<close>

text \<open>
  The two \<^verbatim>\<open>IOError\<close>s the program raises itself carry the codes 1 and 2; the other
  two errors are what \<^verbatim>\<open>shutil.copyfile\<close> and \<^verbatim>\<open>os.remove\<close> raise.
\<close>

datatype error = IOError_1 | IOError_2 | CopyError | RemoveError

definition formats :: "fmt list" where
  "formats = [JsonLd, RdfXml, Turtle, Trig]"

definition empty_graph :: graph where
  "empty_graph = \<lparr>store = [], namespace_manager = []\<rparr>"

text \<open>One \<^verbatim>\<open>current_graph.load(file_path, format=cur_format)\<close>; a file that cannot be read raises.\<close>

definition graph_load :: "world \<Rightarrow> string \<Rightarrow> fmt \<Rightarrow> graph \<Rightarrow> bool \<times> graph" where
  "graph_load w file_path cur_format g =
     (case read_file w file_path of
        None \<Rightarrow> (False, g)
      | Some bytes \<Rightarrow> rdf_parser w file_path bytes cur_format g)"

text \<open>
  The loop of \<^verbatim>\<open>__load_graph\<close>: the same graph object goes through every attempt, and
  every exception of an attempt is swallowed.
\<close>

fun try_formats :: "world \<Rightarrow> string \<Rightarrow> fmt list \<Rightarrow> graph \<Rightarrow> error + graph" where
  "try_formats w file_path [] current_graph = Inl IOError_2"
| "try_formats w file_path (cur_format # rest) current_graph =
     (let r = graph_load w file_path cur_format current_graph
      in if fst r then Inr (snd r) else try_formats w file_path rest (snd r))"

definition load_graph :: "world \<Rightarrow> string \<Rightarrow> error + graph" where
  "load_graph w file_path = try_formats w file_path formats empty_graph"

text \<open>
  \<^verbatim>\<open>__load_graph_from_format\<close>. The result comes with the world as the call leaves
  it: the scratch copy is removed only after a reload that succeeded.
\<close>

definition load_graph_from_format :: "world \<Rightarrow> string \<Rightarrow> string option \<Rightarrow> (error + graph) \<times> world" where
  "load_graph_from_format w rdf_file_path tmp_dir =
     (if isfile w rdf_file_path then
        (case load_graph w rdf_file_path of
           Inr current_graph \<Rightarrow> (Inr current_graph, w)
         | Inl e \<Rightarrow>
             (case tmp_dir of
                None \<Rightarrow> (Inl e, w)
              | Some d \<Rightarrow>
                  (let current_file_path = d @ ''/'' @ ''tmp_rdf_file.rdf''
                   in case copyfile w rdf_file_path current_file_path of
                        None \<Rightarrow> (Inl CopyError, w)
                      | Some w1 \<Rightarrow>
                          (case load_graph w1 current_file_path of
                             Inl e1 \<Rightarrow> (Inl e1, w1)
                           | Inr current_graph \<Rightarrow>
                               (case os_remove w1 current_file_path of
                                  None \<Rightarrow> (Inl RemoveError, w1)
                                | Some w2 \<Rightarrow> (Inr current_graph, w2))))))
      else (Inl IOError_1, w))"

text \<open>
  \<^verbatim>\<open>re.sub("\..+$", "", name)\<close>: the leftmost dot after which \<^verbatim>\<open>.+$\<close> matches; the
  match is cut out, and a final line feed that the match stopped at stays.
\<close>

fun strip_extension :: "string \<Rightarrow> string" where
  "strip_extension [] = []"
| "strip_extension (c # cs) =
     (if c = CHR ''.'' then
        (case dot_plus_end cs of
           Some body \<Rightarrow> drop (length body) cs
         | None \<Rightarrow> c # strip_extension cs)
      else c # strip_extension cs)"

text \<open>
  The loop of \<^verbatim>\<open>validate_file\<close> over the typing statements, with the three variables
  \<^verbatim>\<open>found\<close>, \<^verbatim>\<open>found_resource\<close> and \<^verbatim>\<open>found_type\<close> it assigns.
\<close>

fun scan_types :: "string \<Rightarrow> triple list \<Rightarrow> bool \<times> node option \<times> node option
    \<Rightarrow> bool \<times> node option \<times> node option" where
  "scan_types cur_name [] acc = acc"
| "scan_types cur_name ((s, p, ob) # ts) acc =
     scan_types cur_name ts
       (if local_name (node_str s) = cur_name then (True, Some s, Some ob) else acc)"

text \<open>
  \<^verbatim>\<open>validate_file\<close>: the graph when a typed resource bears the name of the file,
  \<open>None\<close> otherwise; the messages it logs are not part of the model.
\<close>

definition validate_file :: "world \<Rightarrow> string \<Rightarrow> string option \<Rightarrow> (error + graph option) \<times> world" where
  "validate_file w cur_path tmp_dir =
     (case load_graph_from_format w cur_path tmp_dir of
        (Inl e, w1) \<Rightarrow> (Inl e, w1)
      | (Inr cur_graph, w1) \<Rightarrow>
          (let cur_name = strip_extension (basename cur_path);
               found = fst (scan_types cur_name
                 (graph_triples (None, Some RDF_type, None) (store cur_graph))
                 (False, None, None))
           in (Inr (if found then Some cur_graph else None), w1)))"

section \<open>The parser object and the reference resolver\<close>

record d2rparser =
  path_list :: "string list"
  tmp_dir :: "string option"
  final_mapping :: graph
  classmap_set :: "node set"
  translationtable_set :: "node set"
  database_set :: "node set"

definition init :: "string list \<Rightarrow> string option \<Rightarrow> d2rparser" where
  "init paths tmp =
     \<lparr>path_list = paths, tmp_dir = tmp, final_mapping = empty_graph,
      classmap_set = {}, translationtable_set = {}, database_set = {}\<rparr>"

definition fm_add :: "triple \<Rightarrow> d2rparser \<Rightarrow> d2rparser" where
  "fm_add t st = st\<lparr>final_mapping := (final_mapping st)\<lparr>store := graph_add t (store (final_mapping st))\<rparr>\<rparr>"

definition add_declared_namespaces :: "graph \<Rightarrow> d2rparser \<Rightarrow> d2rparser" where
  "add_declared_namespaces cur_graph st =
     st\<lparr>final_mapping := (final_mapping st)\<lparr>namespace_manager :=
        fold bind (namespace_manager cur_graph) (namespace_manager (final_mapping st))\<rparr>\<rparr>"

text \<open>
  \<^verbatim>\<open>complete_file_path\<close>: the first path of the walk that starts with the incomplete
  path and a dot; \<open>None\<close> when the loops end without a \<^verbatim>\<open>return\<close>.
\<close>

definition complete_file_path :: "world \<Rightarrow> string \<Rightarrow> string option" where
  "complete_file_path w incomplete_file_path =
     find (\<lambda>cur_path. startswith cur_path (incomplete_file_path @ ''.''))
       (concat (map (\<lambda>entry. map (\<lambda>cur_file. fst entry @ ''/'' @ cur_file) (snd (snd entry)))
          (os_walk w (dirname incomplete_file_path))))"

text \<open>
  The two loops of \<^verbatim>\<open>retrieve_references\<close> that copy statements, the inner one first;
  \<open>import_statement\<close> is the body of the outer one.
\<close>

fun add_predicate_objects :: "node \<Rightarrow> (node \<times> node) list \<Rightarrow> d2rparser \<Rightarrow> d2rparser" where
  "add_predicate_objects ob [] st = st"
| "add_predicate_objects ob ((o_p, o_o) # rest) st =
     add_predicate_objects ob rest (fm_add (ob, o_p, o_o) st)"

definition import_statement :: "graph \<Rightarrow> node \<Rightarrow> node \<times> node \<Rightarrow> d2rparser \<Rightarrow> d2rparser" where
  "import_statement cur_reference_graph cur_reference po st =
     (case po of (p, ob) \<Rightarrow>
        (let st = fm_add (cur_reference, p, ob) st;
             st = (if is_BNode ob
                   then add_predicate_objects ob (predicate_objects ob (store cur_reference_graph)) st
                   else st)
         in st))"

fun import_reference :: "graph \<Rightarrow> node \<Rightarrow> (node \<times> node) list \<Rightarrow> d2rparser \<Rightarrow> d2rparser" where
  "import_reference cur_reference_graph cur_reference [] st = st"
| "import_reference cur_reference_graph cur_reference (po # rest) st =
     import_reference cur_reference_graph cur_reference rest
       (import_statement cur_reference_graph cur_reference po st)"

text \<open>
  \<^verbatim>\<open>retrieve_references\<close>. A path is true when it is not empty, and an rdflib graph is
  true when it has a statement. The validator is called without a scratch directory,
  so it leaves the world as it is.
\<close>

definition retrieve_references :: "world \<Rightarrow> string \<Rightarrow> node \<Rightarrow> d2rparser \<Rightarrow> error + d2rparser" where
  "retrieve_references w file_path cur_reference st =
     (let cur_name = local_name (node_str cur_reference)
      in case complete_file_path w (dirname file_path @ ''/'' @ cur_name) of
           None \<Rightarrow> Inr st
         | Some reference_file_path \<Rightarrow>
             if reference_file_path = [] then Inr st
             else (case fst (validate_file w reference_file_path None) of
                     Inl e \<Rightarrow> Inl e
                   | Inr None \<Rightarrow> Inr st
                   | Inr (Some cur_reference_graph) \<Rightarrow>
                       if store cur_reference_graph = [] then Inr st
                       else Inr (import_reference cur_reference_graph cur_reference
                                  (predicate_objects cur_reference (store cur_reference_graph))
                                  (add_declared_namespaces cur_reference_graph st))))"

section \<open>Merging a file\<close>

text \<open>
  The first loop of \<^verbatim>\<open>parse_file\<close>, over the statements of the file: its body, and the
  loop.
\<close>

definition copy_triple :: "triple \<Rightarrow> d2rparser \<Rightarrow> d2rparser" where
  "copy_triple t st =
     (case t of (s, p, ob) \<Rightarrow>
        (let st = (if s \<notin> translationtable_set st \<union> database_set st
                   then fm_add (s, p, ob) st else st);
             st = (if ob = d2rq ''ClassMap''
                   then st\<lparr>classmap_set := insert s (classmap_set st)\<rparr> else st)
         in st))"

fun copy_triples :: "triple list \<Rightarrow> d2rparser \<Rightarrow> d2rparser" where
  "copy_triples [] st = st"
| "copy_triples (t # ts) st = copy_triples ts (copy_triple t st)"

text \<open>
  The three loops that copy references differ in the property they follow and in the
  set they fill; one function with the kind of reference as a parameter stands for
  the three.
\<close>

datatype refkind = ClassMapRef | TranslationTableRef | DatabaseRef

fun ref_property :: "refkind \<Rightarrow> node" where
  "ref_property ClassMapRef = d2rq ''refersToClassMap''"
| "ref_property TranslationTableRef = d2rq ''translateWith''"
| "ref_property DatabaseRef = d2rq ''dataStorage''"

fun ref_set :: "refkind \<Rightarrow> d2rparser \<Rightarrow> node set" where
  "ref_set ClassMapRef st = classmap_set st"
| "ref_set TranslationTableRef st = translationtable_set st"
| "ref_set DatabaseRef st = database_set st"

fun ref_set_add :: "refkind \<Rightarrow> node \<Rightarrow> d2rparser \<Rightarrow> d2rparser" where
  "ref_set_add ClassMapRef r st = st\<lparr>classmap_set := insert r (classmap_set st)\<rparr>"
| "ref_set_add TranslationTableRef r st = st\<lparr>translationtable_set := insert r (translationtable_set st)\<rparr>"
| "ref_set_add DatabaseRef r st = st\<lparr>database_set := insert r (database_set st)\<rparr>"

fun copy_references :: "world \<Rightarrow> string \<Rightarrow> refkind \<Rightarrow> node list \<Rightarrow> d2rparser \<Rightarrow> error + d2rparser" where
  "copy_references w file_path k [] st = Inr st"
| "copy_references w file_path k (cur # rest) st =
     (if cur \<notin> ref_set k st then
        (case retrieve_references w file_path cur (ref_set_add k cur st) of
           Inl e \<Rightarrow> Inl e
         | Inr st1 \<Rightarrow> copy_references w file_path k rest st1)
      else copy_references w file_path k rest st)"

definition references_of :: "refkind \<Rightarrow> graph \<Rightarrow> node list" where
  "references_of k cur_graph = graph_objects None (Some (ref_property k)) (store cur_graph)"

text \<open>The body of \<^verbatim>\<open>if cur_graph:\<close> in \<^verbatim>\<open>parse_file\<close>.\<close>

definition merge_graph :: "world \<Rightarrow> string \<Rightarrow> graph \<Rightarrow> d2rparser \<Rightarrow> error + d2rparser" where
  "merge_graph w file_path cur_graph st =
     (let st = copy_triples (store cur_graph) st;
          st = add_declared_namespaces cur_graph st
      in case copy_references w file_path ClassMapRef (references_of ClassMapRef cur_graph) st of
           Inl e \<Rightarrow> Inl e
         | Inr st \<Rightarrow>
             (case copy_references w file_path TranslationTableRef
                     (references_of TranslationTableRef cur_graph) st of
                Inl e \<Rightarrow> Inl e
              | Inr st \<Rightarrow>
                  copy_references w file_path DatabaseRef (references_of DatabaseRef cur_graph) st))"

definition clear_orphans :: "d2rparser \<Rightarrow> d2rparser" where
  "clear_orphans st =
     st\<lparr>final_mapping := (final_mapping st)\<lparr>store := clear_orphan_blank_nodes (store (final_mapping st))\<rparr>\<rparr>"

definition parse_file :: "world \<Rightarrow> string \<Rightarrow> d2rparser \<Rightarrow> error + d2rparser \<times> world" where
  "parse_file w file_path st =
     (case validate_file w file_path (tmp_dir st) of
        (Inl e, w1) \<Rightarrow> Inl e
      | (Inr None, w1) \<Rightarrow> Inr (clear_orphans st, w1)
      | (Inr (Some cur_graph), w1) \<Rightarrow>
          if store cur_graph = [] then Inr (clear_orphans st, w1)
          else (case merge_graph w1 file_path cur_graph st of
                  Inl e \<Rightarrow> Inl e
                | Inr st1 \<Rightarrow> Inr (clear_orphans st1, w1)))"

section \<open>The driving loop and the report\<close>

text \<open>Successive calls of \<^verbatim>\<open>parse_file\<close>; an exception ends the run.\<close>

fun parse_files :: "world \<Rightarrow> string list \<Rightarrow> d2rparser \<Rightarrow> error + d2rparser \<times> world" where
  "parse_files w [] st = Inr (st, w)"
| "parse_files w (file_path # rest) st =
     (case parse_file w file_path st of
        Inl e \<Rightarrow> Inl e
      | Inr (st1, w1) \<Rightarrow> parse_files w1 rest st1)"

text \<open>
  \<^verbatim>\<open>re.search("\.(rdf|owl|ttl|n3)$", cur_file)\<close>: one of the four suffixes at the end
  of the name, or just before a line feed that ends it.
\<close>

definition endswith :: "string \<Rightarrow> string \<Rightarrow> bool" where
  "endswith s suf = startswith (rev s) (rev suf)"

definition rdf_suffix :: "string \<Rightarrow> bool" where
  "rdf_suffix cur_file =
     list_ex (\<lambda>suf. endswith cur_file suf \<or> endswith cur_file (suf @ [LF]))
       [''.rdf'', ''.owl'', ''.ttl'', ''.n3'']"

text \<open>
  The files an entry of the path list stands for. The source walks a directory while
  it merges; the model lists the directory first. The two agree unless a scratch
  copy lands in a directory that is being walked.
\<close>

definition files_of :: "world \<Rightarrow> string \<Rightarrow> string list" where
  "files_of w cur_path =
     (if isdir w cur_path
      then concat (map (\<lambda>entry. map (\<lambda>cur_file. fst entry @ ''/'' @ cur_file)
                                  (filter rdf_suffix (snd (snd entry))))
                     (os_walk w cur_path))
      else [cur_path])"

fun parse_paths :: "world \<Rightarrow> string list \<Rightarrow> d2rparser \<Rightarrow> error + d2rparser \<times> world" where
  "parse_paths w [] st = Inr (st, w)"
| "parse_paths w (cur_path # rest) st =
     (case parse_files w (files_of w cur_path) st of
        Inl e \<Rightarrow> Inl e
      | Inr (st1, w1) \<Rightarrow> parse_paths w1 rest st1)"



section \<open>A small world for examples\<close>

text \<open>
  A parser that reads from a table: the bytes of a file name a document, which has one
  format and a graph; the load in that format adds the document to the graph, a load in
  another format, or of bytes the table does not have, raises and leaves the graph as
  it was. The path plays no part.
\<close>

definition table_parser :: "(string \<times> fmt \<times> graph) list
    \<Rightarrow> string \<Rightarrow> string \<Rightarrow> fmt \<Rightarrow> graph \<Rightarrow> bool \<times> graph" where
  "table_parser docs path bytes cur_format g =
     (case map_of docs bytes of
        None \<Rightarrow> (False, g)
      | Some doc \<Rightarrow>
          if fst doc = cur_format
          then (True, \<lparr>store = fold graph_add (store (snd doc)) (store g),
                       namespace_manager = fold bind (namespace_manager (snd doc)) (namespace_manager g)\<rparr>)
          else (False, g))"

definition ex :: "string \<Rightarrow> node" where
  "ex name = URIRef (''http://ex.org/'' @ name)"

definition doc :: "triple list \<Rightarrow> fmt \<times> graph" where
  "doc ts = (Turtle, \<lparr>store = ts, namespace_manager = []\<rparr>)"

text \<open>The documents of the examples, by the bytes that stand for them.\<close>

definition example_docs :: "(string \<times> fmt \<times> graph) list" where
  "example_docs =
     [(''PB'', doc [(ex ''pb'', RDF_type, d2rq ''PropertyBridge''),
                    (ex ''pb'', d2rq ''refersToClassMap'', ex ''Foo'')]),
      (''X'', doc [(ex ''x'', RDF_type, d2rq ''ClassMap''),
                   (ex ''Foo'', RDF_type, d2rq ''ClassMap'')]),
      (''A'', doc [(ex ''a'', RDF_type, d2rq ''ClassMap''),
                   (ex ''pb'', d2rq ''refersToClassMap'', ex ''Foo'')]),
      (''FOO'', doc [(ex ''Foo'', RDF_type, d2rq ''ClassMap'')]),
      (''CHAIN'', doc [(ex ''chain'', RDF_type, d2rq ''ClassMap''),
                       (BNode ''b2'', ex ''q'', Literal ''v''),
                       (BNode ''b1'', ex ''p'', BNode ''b2'')]),
      (''F'', doc [(ex ''F'', RDF_type, d2rq ''ClassMap''),
                   (BNode ''b'', ex ''q'', Literal ''v'')]),
      (''G'', doc [(ex ''G'', RDF_type, d2rq ''ClassMap''),
                   (ex ''G'', ex ''p'', BNode ''b'')]),
      (''MAP'', doc [(ex ''map'', RDF_type, d2rq ''ClassMap'')]),
      (''NL'', doc [(ex (''a.'' @ [LF] @ ''b''), RDF_type, d2rq ''ClassMap'')]),
      (''C'', doc [(ex ''c'', RDF_type, d2rq ''ClassMap''),
                   (ex ''c'', d2rq ''dataStorage'', ex ''Db'')]),
      (''E'', doc [(ex ''e'', RDF_type, d2rq ''PropertyBridge''),
                   (ex ''e'', d2rq ''refersToClassMap'', ex ''Db'')]),
      (''DB'', doc [(ex ''Db'', RDF_type, d2rq ''Database'')])]"

definition example_world :: "fsnode \<Rightarrow> world" where
  "example_world root = \<lparr>fs_root = root, fs_cwd = [], rdf_parser = table_parser example_docs\<rparr>"

text \<open>
  A directory with a mapping file and a subdirectory whose name starts with the name of
  a resource and a dot.
\<close>

definition maps_tree :: fsnode where
  "maps_tree =
     Dir [(''maps'', Dir [(''pb.ttl'', File ''PB''),
                         (''Foo.d'', Dir [(''x.ttl'', File ''X'')])])]"



text \<open>A mapping that refers to the class map \<^verbatim>\<open>Foo\<close>, which is defined in another directory.\<close>

definition apart_tree :: fsnode where
  "apart_tree = Dir [(''m'', Dir [(''a.ttl'', File ''A'')]), (''n'', Dir [(''Foo.ttl'', File ''FOO'')])]"

text \<open>
  A class map that names \<^verbatim>\<open>Db\<close> as its data storage, and in another directory a
  bridge that refers to \<^verbatim>\<open>Db\<close> as a class map, beside the file that defines \<^verbatim>\<open>Db\<close>.
\<close>

definition storage_tree :: fsnode where
  "storage_tree =
     Dir [(''m'', Dir [(''c.ttl'', File ''C'')]),
          (''n'', Dir [(''e.ttl'', File ''E''), (''Db.ttl'', File ''DB'')])]"

text \<open>A file with a chain of two orphaned blank nodes, beside a file that does not validate.\<close>

definition chain_tree :: fsnode where
  "chain_tree = Dir [(''c'', Dir [(''chain.ttl'', File ''CHAIN''), (''other.ttl'', File ''A'')])]"

text \<open>A file that no format parses, and an empty scratch directory.\<close>

definition scratch_tree :: fsnode where
  "scratch_tree = Dir [(''d'', Dir [(''bad.ttl'', File ''garbage'')]), (''tmp'', Dir [])]"

text \<open>Two files that use the same blank node.\<close>

definition shared_tree :: fsnode where
  "shared_tree = Dir [(''m'', Dir [(''F.ttl'', File ''F''), (''G.ttl'', File ''G'')])]"

text \<open>A file name with two dots, and one with a line feed after its first dot.\<close>

definition dots_tree :: fsnode where
  "dots_tree =
     Dir [(''v'', Dir [(''map.v2.ttl'', File ''MAP''), (''a.'' @ [LF] @ ''b.c'', File ''NL'')])]"

section \<open>Notions for the statements about the reference resolver\<close>





section \<open>Notions for the statements about merging\<close>

text \<open>The statements of a graph whose subject is not a blank node.\<close>

definition named :: "triple list \<Rightarrow> triple set" where
  "named g = {t \<in> set g. \<not> is_BNode (fst t)}"

text \<open>
  \<open>grows st st1\<close>: from \<open>st\<close> to \<open>st1\<close> no statement with a named subject and no member of
  a reference set was lost, and the scratch directory is the same.
\<close>

definition grows :: "d2rparser \<Rightarrow> d2rparser \<Rightarrow> bool" where
  "grows st st1 =
     (named (store (final_mapping st)) \<subseteq> named (store (final_mapping st1))
      \<and> classmap_set st \<subseteq> classmap_set st1
      \<and> translationtable_set st \<subseteq> translationtable_set st1
      \<and> database_set st \<subseteq> database_set st1
      \<and> tmp_dir st1 = tmp_dir st)"

text \<open>
  \<open>covered g st\<close>: the parser has taken from the graph \<open>g\<close> all that a merge of it
  takes, as far as named subjects and the reference sets go.
\<close>

definition covered :: "graph \<Rightarrow> d2rparser \<Rightarrow> bool" where
  "covered g st =
     (list_all (\<lambda>t. is_BNode (fst t) \<or> fst t \<in> translationtable_set st \<union> database_set st
                     \<or> t \<in> set (store (final_mapping st))) (store g)
      \<and> list_all (\<lambda>t. snd (snd t) \<noteq> d2rq ''ClassMap'' \<or> fst t \<in> classmap_set st) (store g)
      \<and> set (references_of ClassMapRef g) \<subseteq> classmap_set st
      \<and> set (references_of TranslationTableRef g) \<subseteq> translationtable_set st
      \<and> set (references_of DatabaseRef g) \<subseteq> database_set st)"

text \<open>The part of \<open>covered\<close> that the first loop of a merge establishes.\<close>

definition statements_covered :: "graph \<Rightarrow> d2rparser \<Rightarrow> bool" where
  "statements_covered g st =
     (list_all (\<lambda>t. is_BNode (fst t) \<or> fst t \<in> translationtable_set st \<union> database_set st
                     \<or> t \<in> set (store (final_mapping st))) (store g)
      \<and> list_all (\<lambda>t. snd (snd t) \<noteq> d2rq ''ClassMap'' \<or> fst t \<in> classmap_set st) (store g))"

text \<open>\<open>same_named st st1\<close>: the two parsers have the same named statements and the same sets.\<close>

definition same_named :: "d2rparser \<Rightarrow> d2rparser \<Rightarrow> bool" where
  "same_named st st1 =
     (named (store (final_mapping st1)) = named (store (final_mapping st))
      \<and> classmap_set st1 = classmap_set st
      \<and> translationtable_set st1 = translationtable_set st
      \<and> database_set st1 = database_set st
      \<and> tmp_dir st1 = tmp_dir st)"

text \<open>\<open>scratch_free w tmp\<close>: nothing sits at the path of the scratch copy.\<close>

definition scratch_free :: "world \<Rightarrow> string option \<Rightarrow> bool" where
  "scratch_free w tmp =
     (case tmp of None \<Rightarrow> True | Some d \<Rightarrow> stat w (d @ ''/'' @ ''tmp_rdf_file.rdf'') = None)"

text \<open>
  A parser that fails on every path with a character beyond ASCII and reads from the
  table otherwise, and a tree with such a path beside an empty scratch directory.
\<close>

definition ascii_parser :: "(string \<times> fmt \<times> graph) list
    \<Rightarrow> string \<Rightarrow> string \<Rightarrow> fmt \<Rightarrow> graph \<Rightarrow> bool \<times> graph" where
  "ascii_parser docs path bytes cur_format g =
     (if list_all (\<lambda>c. of_char c < (128 :: nat)) path
      then table_parser docs path bytes cur_format g else (False, g))"

definition accent_world :: world where
  "accent_world =
     \<lparr>fs_root = Dir [(''d'', Dir [(''caf'' @ [CHR 0xE9] @ ''.ttl'', File ''FOO'')]), (''tmp'', Dir [])],
      fs_cwd = [], rdf_parser = ascii_parser example_docs\<rparr>"

section \<open>Facts about lists of characters\<close>

lemma dropWhile_absent: "sep \<notin> set u \<Longrightarrow> dropWhile (\<lambda>c. c \<noteq> sep) u = []"
  by (induction u) auto

lemma takeWhile_absent: "sep \<notin> set u \<Longrightarrow> takeWhile (\<lambda>c. c \<noteq> sep) u = u"
  by (induction u) auto

lemma dropWhile_first: "sep \<notin> set p \<Longrightarrow> dropWhile (\<lambda>c. c \<noteq> sep) (p @ sep # r) = sep # r"
  by (induction p) auto

lemma takeWhile_first: "sep \<notin> set p \<Longrightarrow> takeWhile (\<lambda>c. c \<noteq> sep) (p @ sep # r) = p"
  by (induction p) auto

lemma dot_plus_end_no_LF:
  "LF \<notin> set rest \<Longrightarrow> dot_plus_end rest = (if rest = [] then None else Some rest)"
  by (simp add: dot_plus_end_def takeWhile_absent dropWhile_absent)

section \<open>The URI namer: what it computes\<close>

lemma set_after_first: "set (after_first sep u) \<subseteq> set u"
  unfolding after_first_def
  by (metis list.set_sel(2) set_dropWhileD subsetI tl_Nil)

lemma sharp_match_no_LF:
  assumes "LF \<notin> set res"
  shows "sharp_match res =
     (if CHR ''#'' \<in> set res \<and> after_first (CHR ''#'') res \<noteq> []
      then Some (after_first (CHR ''#'') res) else None)"
proof (cases "CHR ''#'' \<in> set res")
  case False
  then show ?thesis by (simp add: sharp_match_def dropWhile_absent)
next
  case True
  then obtain p r where res: "res = p @ CHR ''#'' # r" and p: "CHR ''#'' \<notin> set p"
    by (meson split_list_first)
  from assms res have "LF \<notin> set r" by simp
  then show ?thesis
    using True p unfolding res
    by (simp add: sharp_match_def after_first_def dropWhile_first dot_plus_end_no_LF)
qed

lemma slash_match_no_LF:
  assumes "LF \<notin> set u"
  shows "slash_match u =
     (if CHR ''/'' \<in> set u \<and> after_last (CHR ''/'') u \<noteq> []
      then Some (after_last (CHR ''/'') u) else None)"
proof (cases "CHR ''/'' \<in> set u")
  case False
  then show ?thesis by (simp add: slash_match_def dropWhile_absent)
next
  case True
  then obtain p r where u: "u = p @ CHR ''/'' # r" and r: "CHR ''/'' \<notin> set r"
    by (meson split_list_last)
  have rv: "rev u = rev r @ CHR ''/'' # rev p" by (simp add: u)
  from assms u have "LF \<notin> set p" by simp
  then show ?thesis
    using True r unfolding slash_match_def after_last_def rv
    by (simp add: dropWhile_first takeWhile_first)
qed

lemma slash_step_no_LF:
  "LF \<notin> set u \<Longrightarrow> (case slash_match u of Some g \<Rightarrow> g | None \<Rightarrow> u) =
      (if CHR ''/'' \<in> set u \<and> after_last (CHR ''/'') u \<noteq> [] then after_last (CHR ''/'') u else u)"
  by (simp add: slash_match_no_LF)

lemma sharp_step_no_LF:
  "LF \<notin> set res \<Longrightarrow> (case sharp_match res of Some g \<Rightarrow> g | None \<Rightarrow> res) =
      (if CHR ''#'' \<in> set res \<and> after_first (CHR ''#'') res \<noteq> [] then after_first (CHR ''#'') res else res)"
  by (simp add: sharp_match_no_LF)

text \<open>
  Claim C6, as the specification states it, fails: \<^verbatim>\<open>local_name\<close> cuts at the first
  fragment separator, not at the last; it leaves an identifier that ends with a
  separator as it is; and it does not cut when a line feed stands in the way.
\<close>

theorem local_name_spec_counterexample:
  "local_name ''a#b#c'' = ''b#c'' \<and> local_name_spec ''a#b#c'' = ''c''
   \<and> local_name ''a#'' = ''a#'' \<and> local_name_spec ''a#'' = []
   \<and> local_name [CHR ''a'', CHR ''#'', CHR ''b'', LF, CHR ''c''] = [CHR ''a'', CHR ''#'', CHR ''b'', LF, CHR ''c'']
   \<and> local_name_spec [CHR ''a'', CHR ''#'', CHR ''b'', LF, CHR ''c''] = [CHR ''b'', LF, CHR ''c'']"
  by (simp add: local_name_def local_name_spec_def sharp_match_def slash_match_def
      dot_plus_end_def after_last_def LF_def)

text \<open>
  Claim C6, amended: for every identifier without a line feed, \<^verbatim>\<open>local_name\<close> takes what
  follows the first fragment separator when that is not empty, and then what follows
  the last path separator when that is not empty; otherwise it returns what it has.
  The three examples of the specification hold.
\<close>

theorem local_name_first_fragment:
  "(LF \<notin> set res \<longrightarrow>
      local_name res =
       (let u = (if CHR ''#'' \<in> set res \<and> after_first (CHR ''#'') res \<noteq> []
                 then after_first (CHR ''#'') res else res)
        in if CHR ''/'' \<in> set u \<and> after_last (CHR ''/'') u \<noteq> []
           then after_last (CHR ''/'') u else u))
   \<and> local_name ''http://ex.org/a#Foo'' = ''Foo''
   \<and> local_name ''http://ex.org/a/Foo'' = ''Foo''
   \<and> local_name ''Foo'' = ''Foo''"
proof -
  have general: "local_name res =
       (let u = (if CHR ''#'' \<in> set res \<and> after_first (CHR ''#'') res \<noteq> []
                 then after_first (CHR ''#'') res else res)
        in if CHR ''/'' \<in> set u \<and> after_last (CHR ''/'') u \<noteq> []
           then after_last (CHR ''/'') u else u)" if nolf: "LF \<notin> set res"
  proof -
    let ?u = "if CHR ''#'' \<in> set res \<and> after_first (CHR ''#'') res \<noteq> []
              then after_first (CHR ''#'') res else res"
    have "LF \<notin> set ?u"
      using nolf set_after_first [of "CHR ''#''" res] by auto
    then have "(case slash_match ?u of Some g \<Rightarrow> g | None \<Rightarrow> ?u) =
        (if CHR ''/'' \<in> set ?u \<and> after_last (CHR ''/'') ?u \<noteq> [] then after_last (CHR ''/'') ?u else ?u)"
      by (rule slash_step_no_LF)
    then show ?thesis
      unfolding local_name_def Let_def sharp_step_no_LF [OF nolf] .
  qed
  have e1: "local_name ''http://ex.org/a#Foo'' = ''Foo''" by code_simp
  have e2: "local_name ''http://ex.org/a/Foo'' = ''Foo''" by code_simp
  have e3: "local_name ''Foo'' = ''Foo''" by code_simp
  from general e1 e2 e3 show ?thesis by blast
qed

theorem local_name_first_fragment_witness:
  "LF \<notin> set ''x/y#b/c#d'' \<and> local_name ''x/y#b/c#d'' = ''c#d''"
  using local_name_first_fragment [of "''x/y#b/c#d''"]
  by (simp add: LF_def after_first_def after_last_def)

section \<open>The cleanup passes: what they leave behind\<close>

text \<open>
  Claim C3 at a chain of two orphaned blank nodes, the statement of the second one
  coming first: the pass keeps it, because the first node still points at it when it is
  visited. Its subject is then a blank node that is the object of no statement.
\<close>

theorem clear_orphan_blank_nodes_chain:
  "clear_orphan_blank_nodes
     [(BNode ''b2'', ex ''q'', Literal ''v''), (BNode ''b1'', ex ''p'', BNode ''b2'')]
     = [(BNode ''b2'', ex ''q'', Literal ''v'')]
   \<and> BNode ''b2'' \<in> set (graph_subjects None None [(BNode ''b2'', ex ''q'', Literal ''v'')])
   \<and> BNode ''b2'' \<notin> set (graph_objects None None [(BNode ''b2'', ex ''q'', Literal ''v'')])"
  by (simp add: clear_orphan_blank_nodes_def graph_subjects_def graph_objects_def
      graph_triples_def graph_remove_def ex_def)

text \<open>
  Claim C4 at a property bridge that refers to a class map whose data storage was never
  resolved: the first loop keeps the bridge, the class map being typed; the third loop
  removes the class map with its typing statement. The bridge stays, and its reference
  has no typing statement.
\<close>

theorem clear_orphan_property_bridges_dangling:
  "clear_orphan_property_bridges
     [(ex ''pb'', d2rq ''refersToClassMap'', ex ''cm''),
      (ex ''cm'', RDF_type, d2rq ''ClassMap''),
      (ex ''cm'', d2rq ''dataStorage'', ex ''db'')]
     = [(ex ''pb'', d2rq ''refersToClassMap'', ex ''cm'')]
   \<and> ex ''cm'' \<notin> set (graph_subjects (Some RDF_type) None [(ex ''pb'', d2rq ''refersToClassMap'', ex ''cm'')])"
  by code_simp

section \<open>The reference resolver\<close>

lemma validate_file_None_world: "snd (validate_file w p None) = w"
  by (simp add: validate_file_def load_graph_from_format_def Let_def split: sum.splits prod.splits)

text \<open>
  Claim C5 at a directory \<^verbatim>\<open>/maps\<close> with a subdirectory \<^verbatim>\<open>Foo.d\<close> that holds \<^verbatim>\<open>x.ttl\<close>: the
  search for the resource \<^verbatim>\<open>Foo\<close> from \<^verbatim>\<open>/maps/pb.ttl\<close> walks into the subdirectory and
  selects \<^verbatim>\<open>/maps/Foo.d/x.ttl\<close>, a file of another name, and the resolver imports the
  statements of \<^verbatim>\<open>Foo\<close> from it.
\<close>

theorem complete_file_path_subdirectory:
  "complete_file_path (example_world maps_tree) ''/maps/Foo'' = Some ''/maps/Foo.d/x.ttl''
   \<and> (case retrieve_references (example_world maps_tree) ''/maps/pb.ttl'' (ex ''Foo'') (init [] None) of
         Inl e \<Rightarrow> False
       | Inr st \<Rightarrow> store (final_mapping st) = [(ex ''Foo'', RDF_type, d2rq ''ClassMap'')])"
  by code_simp

subsection \<open>Where the search finds nothing, and where it finds a sibling file\<close>




















section \<open>What the steps of a merge change\<close>

lemma set_graph_add [simp]: "set (graph_add t g) = insert t (set g)"
  by (auto simp: graph_add_def)

lemma set_graph_remove: "set (graph_remove pat g) \<subseteq> set g"
  by (auto simp: graph_remove_def)

lemma set_clear_orphan_loop: "set (clear_orphan_loop ss g) \<subseteq> set g"
proof (induction ss arbitrary: g)
  case Nil
  show ?case by simp
next
  case (Cons s ss)
  show ?case
    using Cons.IH [of g] Cons.IH [of "graph_remove (Some s, None, None) g"]
      set_graph_remove [of "(Some s, None, None)" g]
    by auto
qed

lemma set_clear_orphan_blank_nodes: "set (clear_orphan_blank_nodes g) \<subseteq> set g"
  by (simp add: clear_orphan_blank_nodes_def set_clear_orphan_loop)

lemma named_graph_remove_BNode:
  "is_BNode s \<Longrightarrow> named (graph_remove (Some s, None, None) g) = named g"
  by (auto simp: named_def graph_remove_def)

lemma named_clear_orphan_loop: "named (clear_orphan_loop ss g) = named g"
proof (induction ss arbitrary: g)
  case Nil
  show ?case by simp
next
  case (Cons s ss)
  show ?case
    by (simp add: Cons.IH named_graph_remove_BNode)
qed

lemma named_clear_orphan_blank_nodes: "named (clear_orphan_blank_nodes g) = named g"
  by (simp add: clear_orphan_blank_nodes_def named_clear_orphan_loop)

lemma fm_add_fields [simp]:
  "classmap_set (fm_add t st) = classmap_set st"
  "translationtable_set (fm_add t st) = translationtable_set st"
  "database_set (fm_add t st) = database_set st"
  "tmp_dir (fm_add t st) = tmp_dir st"
  "path_list (fm_add t st) = path_list st"
  "store (final_mapping (fm_add t st)) = graph_add t (store (final_mapping st))"
  "namespace_manager (final_mapping (fm_add t st)) = namespace_manager (final_mapping st)"
  by (simp_all add: fm_add_def)

lemma add_declared_namespaces_fields [simp]:
  "classmap_set (add_declared_namespaces g st) = classmap_set st"
  "translationtable_set (add_declared_namespaces g st) = translationtable_set st"
  "database_set (add_declared_namespaces g st) = database_set st"
  "tmp_dir (add_declared_namespaces g st) = tmp_dir st"
  "path_list (add_declared_namespaces g st) = path_list st"
  "store (final_mapping (add_declared_namespaces g st)) = store (final_mapping st)"
  by (simp_all add: add_declared_namespaces_def)

lemma clear_orphans_fields [simp]:
  "classmap_set (clear_orphans st) = classmap_set st"
  "translationtable_set (clear_orphans st) = translationtable_set st"
  "database_set (clear_orphans st) = database_set st"
  "tmp_dir (clear_orphans st) = tmp_dir st"
  "path_list (clear_orphans st) = path_list st"
  "store (final_mapping (clear_orphans st)) = clear_orphan_blank_nodes (store (final_mapping st))"
  "namespace_manager (final_mapping (clear_orphans st)) = namespace_manager (final_mapping st)"
  by (simp_all add: clear_orphans_def)

lemma ref_set_add_fields [simp]:
  "tmp_dir (ref_set_add k r st) = tmp_dir st"
  "path_list (ref_set_add k r st) = path_list st"
  "final_mapping (ref_set_add k r st) = final_mapping st"
  "ref_set k (ref_set_add k r st) = insert r (ref_set k st)"
  by (cases k; simp)+

lemma ref_set_add_sets:
  "classmap_set st \<subseteq> classmap_set (ref_set_add k r st)"
  "translationtable_set st \<subseteq> translationtable_set (ref_set_add k r st)"
  "database_set st \<subseteq> database_set (ref_set_add k r st)"
  by (cases k; auto)+

lemma copy_triple_fields [simp]:
  "translationtable_set (copy_triple t st) = translationtable_set st"
  "database_set (copy_triple t st) = database_set st"
  "tmp_dir (copy_triple t st) = tmp_dir st"
  "path_list (copy_triple t st) = path_list st"
  "namespace_manager (final_mapping (copy_triple t st)) = namespace_manager (final_mapping st)"
  "classmap_set (copy_triple t st) =
     (if snd (snd t) = d2rq ''ClassMap'' then insert (fst t) (classmap_set st) else classmap_set st)"
  "set (store (final_mapping (copy_triple t st))) =
     (if fst t \<notin> translationtable_set st \<union> database_set st
      then insert t (set (store (final_mapping st))) else set (store (final_mapping st)))"
  by (auto simp: copy_triple_def Let_def split: prod.splits)

lemma copy_triples_fields [simp]:
  "translationtable_set (copy_triples ts st) = translationtable_set st"
  "database_set (copy_triples ts st) = database_set st"
  "tmp_dir (copy_triples ts st) = tmp_dir st"
  "path_list (copy_triples ts st) = path_list st"
  "namespace_manager (final_mapping (copy_triples ts st)) = namespace_manager (final_mapping st)"
  by (induction ts arbitrary: st; simp)+

lemma copy_triples_classmap_set:
  "classmap_set (copy_triples ts st) =
     classmap_set st \<union> {fst t |t. t \<in> set ts \<and> snd (snd t) = d2rq ''ClassMap''}"
  by (induction ts arbitrary: st) auto

lemma copy_triples_store:
  "set (store (final_mapping (copy_triples ts st))) =
     set (store (final_mapping st))
     \<union> {t \<in> set ts. fst t \<notin> translationtable_set st \<union> database_set st}"
  by (induction ts arbitrary: st) auto

lemma add_predicate_objects_fields [simp]:
  "classmap_set (add_predicate_objects ob pos st) = classmap_set st"
  "translationtable_set (add_predicate_objects ob pos st) = translationtable_set st"
  "database_set (add_predicate_objects ob pos st) = database_set st"
  "tmp_dir (add_predicate_objects ob pos st) = tmp_dir st"
  "path_list (add_predicate_objects ob pos st) = path_list st"
  by (induction ob pos st rule: add_predicate_objects.induct; simp)+

lemma add_predicate_objects_store:
  "set (store (final_mapping st)) \<subseteq> set (store (final_mapping (add_predicate_objects ob pos st)))"
  by (induction ob pos st rule: add_predicate_objects.induct) auto

lemma import_statement_fields [simp]:
  "classmap_set (import_statement g r po st) = classmap_set st"
  "translationtable_set (import_statement g r po st) = translationtable_set st"
  "database_set (import_statement g r po st) = database_set st"
  "tmp_dir (import_statement g r po st) = tmp_dir st"
  "path_list (import_statement g r po st) = path_list st"
  by (simp_all add: import_statement_def Let_def split: prod.splits)

lemma import_statement_store:
  "set (store (final_mapping st)) \<subseteq> set (store (final_mapping (import_statement g r po st)))"
proof (cases po)
  case (Pair p ob)
  have "set (store (final_mapping st)) \<subseteq> set (store (final_mapping (fm_add (r, p, ob) st)))"
    by auto
  moreover have "set (store (final_mapping (fm_add (r, p, ob) st)))
      \<subseteq> set (store (final_mapping (add_predicate_objects ob (predicate_objects ob (store g))
                                        (fm_add (r, p, ob) st))))"
    by (rule add_predicate_objects_store)
  ultimately show ?thesis
    unfolding Pair import_statement_def Let_def by (auto split: if_splits)
qed

lemma import_reference_fields [simp]:
  "classmap_set (import_reference g r pos st) = classmap_set st"
  "translationtable_set (import_reference g r pos st) = translationtable_set st"
  "database_set (import_reference g r pos st) = database_set st"
  "tmp_dir (import_reference g r pos st) = tmp_dir st"
  "path_list (import_reference g r pos st) = path_list st"
  by (induction pos arbitrary: st; simp)+

lemma import_reference_store:
  "set (store (final_mapping st)) \<subseteq> set (store (final_mapping (import_reference g r pos st)))"
proof (induction pos arbitrary: st)
  case Nil
  show ?case by simp
next
  case (Cons po pos)
  show ?case
    using Cons.IH [of "import_statement g r po st"] import_statement_store [of st g r po]
    by auto
qed

lemma retrieve_references_fields:
  assumes "retrieve_references w file_path r st = Inr st1"
  shows "classmap_set st1 = classmap_set st"
    and "translationtable_set st1 = translationtable_set st"
    and "database_set st1 = database_set st"
    and "tmp_dir st1 = tmp_dir st"
    and "path_list st1 = path_list st"
    and "set (store (final_mapping st)) \<subseteq> set (store (final_mapping st1))"
proof -
  have imp: "set (store (final_mapping st))
      \<subseteq> set (store (final_mapping (import_reference g r pos (add_declared_namespaces g st))))"
    for g pos
    using import_reference_store [of "add_declared_namespaces g st" g r pos] by simp
  from assms show "classmap_set st1 = classmap_set st"
    and "translationtable_set st1 = translationtable_set st"
    and "database_set st1 = database_set st"
    and "tmp_dir st1 = tmp_dir st"
    and "path_list st1 = path_list st"
    by (auto simp: retrieve_references_def Let_def split: option.splits if_splits sum.splits)
  from assms imp show "set (store (final_mapping st)) \<subseteq> set (store (final_mapping st1))"
    by (auto simp: retrieve_references_def Let_def split: option.splits if_splits sum.splits)
qed

section \<open>Growth and coverage\<close>

lemma grows_refl: "grows st st"
  by (simp add: grows_def)

lemma grows_trans: "grows st st1 \<Longrightarrow> grows st1 st2 \<Longrightarrow> grows st st2"
  by (auto simp: grows_def)

lemma ref_set_grows: "grows st st1 \<Longrightarrow> ref_set k st \<subseteq> ref_set k st1"
  by (cases k) (auto simp: grows_def)

lemma grows_ref_set_add: "grows st (ref_set_add k r st)"
  using ref_set_add_sets [of st k r] by (simp add: grows_def)

lemma named_mono: "set g \<subseteq> set g1 \<Longrightarrow> named g \<subseteq> named g1"
  by (auto simp: named_def)

lemma grows_retrieve_references:
  "retrieve_references w file_path r st = Inr st1 \<Longrightarrow> grows st st1"
  using retrieve_references_fields [of w file_path r st st1]
  by (simp add: grows_def named_mono)

lemma grows_copy_triples: "grows st (copy_triples ts st)"
  by (auto simp: grows_def copy_triples_classmap_set copy_triples_store named_def)

lemma grows_add_declared_namespaces: "grows st (add_declared_namespaces g st)"
  by (simp add: grows_def)

lemma grows_clear_orphans: "grows st (clear_orphans st)"
  by (simp add: grows_def named_clear_orphan_blank_nodes)

lemma copy_references_grows:
  "copy_references w file_path k rs st = Inr st1 \<Longrightarrow> grows st st1 \<and> set rs \<subseteq> ref_set k st1"
proof (induction rs arbitrary: st)
  case Nil
  then show ?case by (simp add: grows_refl)
next
  case (Cons cur rest)
  show ?case
  proof (cases "cur \<in> ref_set k st")
    case True
    with Cons.prems have "copy_references w file_path k rest st = Inr st1" by simp
    from Cons.IH [OF this] True show ?thesis
      using ref_set_grows [of st st1 k] by auto
  next
    case False
    with Cons.prems obtain st2 where
      r: "retrieve_references w file_path cur (ref_set_add k cur st) = Inr st2"
      and c: "copy_references w file_path k rest st2 = Inr st1"
      by (auto split: sum.splits)
    from Cons.IH [OF c] have g2: "grows st2 st1" and sub: "set rest \<subseteq> ref_set k st1" by auto
    from grows_retrieve_references [OF r] have g1: "grows (ref_set_add k cur st) st2" .
    have "cur \<in> ref_set k (ref_set_add k cur st)" by simp
    with ref_set_grows [OF g1, of k] ref_set_grows [OF g2, of k] have "cur \<in> ref_set k st1"
      by blast
    moreover have "grows st st1"
      using grows_trans [OF grows_ref_set_add [of st k cur] grows_trans [OF g1 g2]] .
    ultimately show ?thesis using sub by simp
  qed
qed

lemma copy_references_known:
  "set rs \<subseteq> ref_set k st \<Longrightarrow> copy_references w file_path k rs st = Inr st"
  by (induction rs) auto

lemma statements_covered_copy_triples:
  "statements_covered g (copy_triples (store g) st)"
  by (auto simp: statements_covered_def list_all_iff copy_triples_store copy_triples_classmap_set)

lemma statements_covered_grows:
  "statements_covered g st \<Longrightarrow> grows st st1 \<Longrightarrow> statements_covered g st1"
  unfolding statements_covered_def list_all_iff grows_def named_def
  by (intro conjI ballI) (elim conjE, blast)+

lemma covered_iff:
  "covered g st = (statements_covered g st \<and> (\<forall>k. set (references_of k g) \<subseteq> ref_set k st))"
proof -
  have "(\<forall>k. set (references_of k g) \<subseteq> ref_set k st) =
     (set (references_of ClassMapRef g) \<subseteq> classmap_set st
      \<and> set (references_of TranslationTableRef g) \<subseteq> translationtable_set st
      \<and> set (references_of DatabaseRef g) \<subseteq> database_set st)"
    (is "?l = ?r")
  proof
    assume ?l
    from this [rule_format, of ClassMapRef] this [rule_format, of TranslationTableRef]
      this [rule_format, of DatabaseRef]
    show ?r by simp
  next
    assume r: ?r
    show ?l
    proof
      fix k show "set (references_of k g) \<subseteq> ref_set k st"
        using r by (cases k) simp_all
    qed
  qed
  then show ?thesis
    by (auto simp: covered_def statements_covered_def)
qed

lemma covered_grows: "covered g st \<Longrightarrow> grows st st1 \<Longrightarrow> covered g st1"
  unfolding covered_iff
  using statements_covered_grows ref_set_grows by blast

lemma merge_graph_grows:
  assumes "merge_graph w file_path g st = Inr st1"
  shows "grows st st1 \<and> covered g st1"
proof -
  let ?s0 = "add_declared_namespaces g (copy_triples (store g) st)"
  from assms obtain s1 s2 where
    c1: "copy_references w file_path ClassMapRef (references_of ClassMapRef g) ?s0 = Inr s1"
    and c2: "copy_references w file_path TranslationTableRef (references_of TranslationTableRef g) s1 = Inr s2"
    and c3: "copy_references w file_path DatabaseRef (references_of DatabaseRef g) s2 = Inr st1"
    by (auto simp: merge_graph_def Let_def split: sum.splits)
  note r1 = copy_references_grows [OF c1]
  note r2 = copy_references_grows [OF c2]
  note r3 = copy_references_grows [OF c3]
  have g0: "grows st ?s0"
    using grows_trans [OF grows_copy_triples grows_add_declared_namespaces] .
  have g1: "grows ?s0 st1"
    using grows_trans [OF conjunct1 [OF r1] grows_trans [OF conjunct1 [OF r2] conjunct1 [OF r3]]] .
  have "statements_covered g (copy_triples (store g) st)"
    by (rule statements_covered_copy_triples)
  then have sc: "statements_covered g st1"
    using statements_covered_grows grows_add_declared_namespaces g1 by blast
  have k1: "set (references_of ClassMapRef g) \<subseteq> ref_set ClassMapRef st1"
    using r1 ref_set_grows [OF conjunct1 [OF r2], of ClassMapRef]
      ref_set_grows [OF conjunct1 [OF r3], of ClassMapRef] by blast
  have k2: "set (references_of TranslationTableRef g) \<subseteq> ref_set TranslationTableRef st1"
    using r2 ref_set_grows [OF conjunct1 [OF r3], of TranslationTableRef] by blast
  have k3: "set (references_of DatabaseRef g) \<subseteq> ref_set DatabaseRef st1"
    using r3 by blast
  have "covered g st1"
    unfolding covered_iff
  proof (intro conjI allI)
    show "statements_covered g st1" by (rule sc)
    fix k show "set (references_of k g) \<subseteq> ref_set k st1"
      using k1 k2 k3 by (cases k) simp_all
  qed
  with grows_trans [OF g0 g1] show ?thesis by simp
qed

lemma same_named_grows: "same_named st st1 \<Longrightarrow> grows st st1"
  by (simp add: same_named_def grows_def)

lemma same_named_trans: "same_named st st1 \<Longrightarrow> same_named st1 st2 \<Longrightarrow> same_named st st2"
  by (simp add: same_named_def)

lemma same_named_clear_orphans: "same_named st (clear_orphans st)"
  by (simp add: same_named_def named_clear_orphan_blank_nodes)

lemma merge_graph_covered:
  assumes "covered g st"
  shows "\<exists>st1. merge_graph w file_path g st = Inr st1 \<and> same_named st st1"
proof -
  let ?s0 = "add_declared_namespaces g (copy_triples (store g) st)"
  from assms have sc: "statements_covered g st"
    and refs: "\<And>k. set (references_of k g) \<subseteq> ref_set k st"
    by (simp_all add: covered_iff)
  have sets: "classmap_set ?s0 = classmap_set st"
    using sc by (auto simp: copy_triples_classmap_set statements_covered_def list_all_iff)
  have nm: "named (store (final_mapping ?s0)) = named (store (final_mapping st))"
    using sc by (auto simp: copy_triples_store statements_covered_def list_all_iff named_def)
  have sn: "same_named st ?s0"
    using sets nm by (simp add: same_named_def)
  have r: "set (references_of k g) \<subseteq> ref_set k ?s0" for k
    using refs [of k] sets by (cases k) simp_all
  have "merge_graph w file_path g st = Inr ?s0"
    by (simp add: merge_graph_def Let_def copy_references_known [OF r])
  with sn show ?thesis by blast
qed

section \<open>The file tree under a write and a removal\<close>

lemma map_of_set_entry: "map_of (set_entry c m es) k = (if k = c then Some m else map_of es k)"
  by (induction es) auto

lemma map_of_del_entry: "k \<noteq> c \<Longrightarrow> map_of (del_entry c es) k = map_of es k"
  by (induction es) auto

lemma map_of_map_entry:
  "map_of (map_entry c f es) k = (if k = c then map_option f (map_of es c) else map_of es k)"
  by (induction es) auto

lemma del_entry_set_entry: "map_of es c = None \<Longrightarrow> del_entry c (set_entry c m es) = es"
  by (induction es) (auto split: if_splits)

lemma map_entry_map_entry: "map_entry c g (map_entry c f es) = map_entry c (\<lambda>n. g (f n)) es"
  by (induction es) auto

lemma map_entry_same:
  "(\<And>n. map_of es c = Some n \<Longrightarrow> f n = n) \<Longrightarrow> map_entry c f es = es"
proof (induction es)
  case Nil
  show ?case by simp
next
  case (Cons e es)
  show ?case
  proof (cases "fst e = c")
    case True
    then have "map_of (e # es) c = Some (snd e)" by (cases e) simp
    from Cons.prems [OF this] True show ?thesis by (cases e) simp
  next
    case False
    then have "map_of (e # es) c = map_of es c" by (cases e) simp
    with Cons.prems have "\<And>n. map_of es c = Some n \<Longrightarrow> f n = n" by simp
    from Cons.IH [OF this] False show ?thesis by simp
  qed
qed

text \<open>A write followed by the removal of what was written gives the tree back.\<close>

lemma put_put_None:
  "lookup root cs = None \<Longrightarrow> put (put root cs (Some m)) cs None = root"
proof (induction cs arbitrary: root)
  case Nil
  then show ?case by simp
next
  case (Cons c cs)
  show ?case
  proof (cases root)
    case (File b)
    then show ?thesis by simp
  next
    case (Dir es)
    show ?thesis
    proof (cases "cs = []")
      case True
      with Cons.prems Dir have "map_of es c = None"
        by (simp split: option.splits)
      with True Dir show ?thesis by (simp add: del_entry_set_entry)
    next
      case False
      have "map_entry c (\<lambda>n. put (put n cs (Some m)) cs None) es = es"
      proof (rule map_entry_same)
        fix n assume "map_of es c = Some n"
        with Cons.prems Dir have "lookup n cs = None" by simp
        then show "put (put n cs (Some m)) cs None = n" by (rule Cons.IH)
      qed
      with False Dir show ?thesis by (simp add: map_entry_map_entry)
    qed
  qed
qed

text \<open>After a write, the path leads to what was written, when its directory exists.\<close>

lemma lookup_put_Some:
  "cs \<noteq> [] \<Longrightarrow> is_dir_at root (butlast cs) \<Longrightarrow> lookup (put root cs (Some m)) cs = Some m"
proof (induction cs arbitrary: root)
  case Nil
  then show ?case by simp
next
  case (Cons c cs)
  show ?case
  proof (cases "cs = []")
    case True
    with Cons.prems show ?thesis
      by (cases root) (simp_all add: is_dir_at_def map_of_set_entry)
  next
    case False
    with Cons.prems obtain es n where root: "root = Dir es" and n: "map_of es c = Some n"
      and d: "is_dir_at n (butlast cs)"
      by (cases root) (auto simp: is_dir_at_def split: option.splits)
    from Cons.IH [OF False d] have "lookup (put n cs (Some m)) cs = Some m" .
    with False root n show ?thesis by (simp add: map_of_map_entry)
  qed
qed

text \<open>Writing a file where no directory was changes no answer to the question whether a path is a directory.\<close>

lemma is_dir_at_put_File:
  "cs \<noteq> [] \<Longrightarrow> \<not> is_dir_at root cs \<Longrightarrow>
   is_dir_at (put root cs (Some (File b))) xs = is_dir_at root xs"
proof (induction cs arbitrary: root xs)
  case Nil
  then show ?case by simp
next
  case (Cons c cs)
  show ?case
  proof (cases root)
    case (File b')
    then show ?thesis by simp
  next
    case (Dir es)
    show ?thesis
    proof (cases xs)
      case Nil
      with Dir show ?thesis by (simp add: is_dir_at_def)
    next
      case (Cons x xs')
      show ?thesis
      proof (cases "x = c")
        case False
        with Dir Cons show ?thesis
          by (simp add: is_dir_at_def map_of_set_entry map_of_map_entry)
      next
        case True
        show ?thesis
        proof (cases "cs = []")
          case cs: True
          from Cons.prems(2) Dir cs have nd: "\<not> is_dir_at (Dir es) [c]" by simp
          then have "is_dir_at (Dir es) (c # xs') = False"
            by (cases xs') (auto simp: is_dir_at_def split: option.splits fsnode.splits)
          moreover have "is_dir_at (Dir (set_entry c (File b) es)) (c # xs') = False"
            by (cases xs') (auto simp: is_dir_at_def map_of_set_entry)
          ultimately show ?thesis using Dir Cons True cs by simp
        next
          case cs: False
          show ?thesis
          proof (cases "map_of es c")
            case None
            with Dir Cons True cs show ?thesis
              by (simp add: is_dir_at_def map_of_map_entry)
          next
            case (Some n)
            from Cons.prems(2) Dir Some have "\<not> is_dir_at n cs"
              by (simp add: is_dir_at_def)
            from Cons.IH [OF cs this, of xs'] Dir Cons True cs Some show ?thesis
              by (simp add: is_dir_at_def map_of_map_entry)
          qed
        qed
      qed
    qed
  qed
qed

lemma follow_cong:
  "(\<And>xs. is_dir_at root1 xs = is_dir_at root xs) \<Longrightarrow> follow root1 cur comps = follow root cur comps"
  by (induction comps arbitrary: cur) simp_all

lemma is_dir_at_Cons:
  "is_dir_at root (c # cs) =
     (case root of File b \<Rightarrow> False
      | Dir es \<Rightarrow> (case map_of es c of None \<Rightarrow> False | Some n \<Rightarrow> is_dir_at n cs))"
  by (simp add: is_dir_at_def split: fsnode.splits option.splits)

lemma is_dir_at_butlast: "is_dir_at root cur \<Longrightarrow> is_dir_at root (butlast cur)"
proof (induction cur arbitrary: root)
  case Nil
  then show ?case by simp
next
  case (Cons c cur)
  show ?case
  proof (cases "cur = []")
    case True
    with Cons.prems show ?thesis
      by (cases root) (simp_all add: is_dir_at_def)
  next
    case False
    with Cons.prems Cons.IH show ?thesis
      by (auto simp: is_dir_at_Cons split: fsnode.splits option.splits)
  qed
qed

lemma follow_parent:
  "follow root cur comps = Some cs \<Longrightarrow> is_dir_at root cur \<Longrightarrow>
   is_dir_at root cs \<or> (cs \<noteq> [] \<and> is_dir_at root (butlast cs))"
proof (induction comps arbitrary: cur)
  case Nil
  then show ?case by simp
next
  case (Cons c comps)
  show ?case
  proof (cases comps)
    case Nil
    with Cons.prems show ?thesis
      using is_dir_at_butlast [of root cur] by (auto split: if_splits)
  next
    case (Cons c' comps')
    from Cons.prems obtain cur' where
      f: "follow root cur' comps = Some cs" and "cur' = cur \<or> cur' = butlast cur \<or> cur' = cur @ [c]"
      by (auto split: if_splits)
    from f Cons have "is_dir_at root cur'" by (auto split: if_splits)
    from Cons.IH [OF f this] show ?thesis .
  qed
qed

lemma split_sep_not_Nil: "split_sep p \<noteq> []"
  by (induction p) (auto split: list.splits)

lemma resolve_parent:
  assumes "resolve w p = Some cs" and "\<not> is_dir_at (fs_root w) cs"
  shows "cs \<noteq> [] \<and> is_dir_at (fs_root w) (butlast cs)"
proof -
  let ?start = "if hd p = CHR ''/'' then [] else fs_cwd w"
  from assms(1) have f: "follow (fs_root w) ?start (split_sep p) = Some cs"
    by (simp add: resolve_def split: if_splits)
  obtain c comps where sp: "split_sep p = c # comps"
    using split_sep_not_Nil [of p] by (cases "split_sep p") auto
  from f sp have "is_dir_at (fs_root w) ?start"
    by (auto split: if_splits)
  from follow_parent [OF f this] assms(2) show ?thesis by blast
qed

lemma resolve_put_File:
  assumes "cs \<noteq> []" and "\<not> is_dir_at (fs_root w) cs"
  shows "resolve (w\<lparr>fs_root := put (fs_root w) cs (Some (File b))\<rparr>) p = resolve w p"
  using follow_cong [of "put (fs_root w) cs (Some (File b))" "fs_root w"]
    is_dir_at_put_File [OF assms]
  by (simp add: resolve_def)

text \<open>
  A copy that succeeds leaves a file with the bytes of the source at the target, and
  the removal of that file succeeds; when nothing was at the target before, the
  removal gives the world back.
\<close>

lemma copyfile_Some:
  assumes "copyfile w src dst = Some wa"
  shows "read_file wa dst = read_file w src \<and> isfile wa dst \<and> rdf_parser wa = rdf_parser w
         \<and> (\<exists>wb. os_remove wa dst = Some wb)
         \<and> (stat w dst = None \<longrightarrow> os_remove wa dst = Some w)"
proof -
  from assms obtain bytes cs where
    rd: "read_file w src = Some bytes" and rs: "resolve w dst = Some cs"
    and ne: "cs \<noteq> []" and nd: "\<not> is_dir_at (fs_root w) cs"
    and wa: "wa = w\<lparr>fs_root := put (fs_root w) cs (Some (File bytes))\<rparr>"
    by (auto simp: copyfile_def split: option.splits if_splits)
  from resolve_parent [OF rs nd] have par: "is_dir_at (fs_root w) (butlast cs)" by simp
  have rs': "resolve wa dst = Some cs"
    unfolding wa using resolve_put_File [OF ne nd] rs by simp
  have lk: "lookup (fs_root wa) cs = Some (File bytes)"
    unfolding wa using lookup_put_Some [OF ne par] by simp
  have st: "stat wa dst = Some (File bytes)"
    using rs' lk by (simp add: stat_def)
  have isf: "isfile wa dst" and rdb: "read_file wa dst = Some bytes"
    using st by (simp_all add: isfile_def read_file_def)
  have rem: "os_remove wa dst = Some (wa\<lparr>fs_root := put (fs_root wa) cs None\<rparr>)"
    using rs' isf by (simp add: os_remove_def)
  have restored: "os_remove wa dst = Some w" if "stat w dst = None"
  proof -
    from that rs have "lookup (fs_root w) cs = None" by (simp add: stat_def)
    then have "put (put (fs_root w) cs (Some (File bytes))) cs None = fs_root w"
      by (rule put_put_None)
    with rem show ?thesis unfolding wa by simp
  qed
  from rd rdb isf rem restored show ?thesis
    by (simp add: wa)
qed

lemma load_graph_from_format_world:
  assumes "scratch_free w tmp" and "load_graph_from_format w p tmp = (Inr g, w1)"
  shows "w1 = w"
proof (cases tmp)
  case None
  with assms(2) show ?thesis
    by (auto simp: load_graph_from_format_def split: if_splits sum.splits)
next
  case (Some d)
  with assms(1) have free: "stat w (d @ ''/'' @ ''tmp_rdf_file.rdf'') = None"
    by (simp add: scratch_free_def)
  show ?thesis
  proof (cases "load_graph w p")
    case (Inr g')
    with assms(2) show ?thesis
      by (auto simp: load_graph_from_format_def split: if_splits)
  next
    case (Inl e)
    with assms(2) Some obtain wa where
      cp: "copyfile w p (d @ ''/'' @ ''tmp_rdf_file.rdf'') = Some wa"
      and rm: "os_remove wa (d @ ''/'' @ ''tmp_rdf_file.rdf'') = Some w1"
      by (auto simp: load_graph_from_format_def Let_def split: if_splits option.splits sum.splits)
    from copyfile_Some [OF cp] free rm show ?thesis by simp
  qed
qed

lemma validate_file_world:
  assumes "scratch_free w tmp" and "validate_file w p tmp = (Inr r, w1)"
  shows "w1 = w"
proof -
  from assms(2) obtain g where "load_graph_from_format w p tmp = (Inr g, w1)"
    by (auto simp: validate_file_def Let_def split: prod.splits sum.splits)
  from load_graph_from_format_world [OF assms(1) this] show ?thesis .
qed

section \<open>The loader and the validator\<close>

text \<open>
  Claim C7, as stated, fails: the parser of \<open>example_world\<close> ignores the path, so
  the failure on \<^verbatim>\<open>/d/bad.ttl\<close> has nothing to do with the characters of the path (the
  same bytes fail under the scratch path as well), and yet the scratch copy is made.
\<close>

theorem scratch_copy_counterexample:
  "isfile (example_world scratch_tree) ''/d/bad.ttl''
   \<and> load_graph (example_world scratch_tree) ''/d/bad.ttl'' = Inl IOError_2
   \<and> read_file (example_world scratch_tree) ''/tmp/tmp_rdf_file.rdf'' = None
   \<and> (case load_graph_from_format (example_world scratch_tree) ''/d/bad.ttl'' (Some ''/tmp'') of
         (r, w1) \<Rightarrow> r = Inl IOError_2
            \<and> read_file w1 ''/tmp/tmp_rdf_file.rdf'' = Some ''garbage''
            \<and> load_graph w1 ''/tmp/tmp_rdf_file.rdf'' = Inl IOError_2)"
  by code_simp

text \<open>
  Claim C7, amended: when no format loads an existing file, the failure propagates if no
  scratch directory is configured. If one is configured, the fallback is attempted once,
  whatever the cause of the failure: a copy that fails raises; after a copy that
  succeeds the file is reloaded from the scratch path, a reload that fails propagates
  its error and leaves the copy, and a reload that succeeds gives the graph and the copy
  is removed.
\<close>

theorem load_graph_from_format_fallback:
  assumes "isfile w p" and "load_graph w p = Inl e"
  shows "load_graph_from_format w p None = (Inl e, w)
     \<and> (copyfile w p (d @ ''/'' @ ''tmp_rdf_file.rdf'') = None
          \<longrightarrow> load_graph_from_format w p (Some d) = (Inl CopyError, w))
     \<and> (\<forall>w1. copyfile w p (d @ ''/'' @ ''tmp_rdf_file.rdf'') = Some w1 \<longrightarrow>
           (\<forall>e1. load_graph w1 (d @ ''/'' @ ''tmp_rdf_file.rdf'') = Inl e1
                \<longrightarrow> load_graph_from_format w p (Some d) = (Inl e1, w1))
         \<and> (\<forall>g. load_graph w1 (d @ ''/'' @ ''tmp_rdf_file.rdf'') = Inr g
                \<longrightarrow> (\<exists>w2. os_remove w1 (d @ ''/'' @ ''tmp_rdf_file.rdf'') = Some w2
                         \<and> load_graph_from_format w p (Some d) = (Inr g, w2))))"
proof (intro conjI allI impI)
  show "load_graph_from_format w p None = (Inl e, w)"
    using assms by (simp add: load_graph_from_format_def)
next
  assume "copyfile w p (d @ ''/'' @ ''tmp_rdf_file.rdf'') = None"
  then show "load_graph_from_format w p (Some d) = (Inl CopyError, w)"
    using assms by (simp add: load_graph_from_format_def)
next
  fix w1 e1
  assume "copyfile w p (d @ ''/'' @ ''tmp_rdf_file.rdf'') = Some w1"
    and "load_graph w1 (d @ ''/'' @ ''tmp_rdf_file.rdf'') = Inl e1"
  then show "load_graph_from_format w p (Some d) = (Inl e1, w1)"
    using assms by (simp add: load_graph_from_format_def)
next
  fix w1 g
  assume cp: "copyfile w p (d @ ''/'' @ ''tmp_rdf_file.rdf'') = Some w1"
    and ld: "load_graph w1 (d @ ''/'' @ ''tmp_rdf_file.rdf'') = Inr g"
  from copyfile_Some [OF cp] obtain w2 where
    rm: "os_remove w1 (d @ ''/'' @ ''tmp_rdf_file.rdf'') = Some w2" by blast
  then have "load_graph_from_format w p (Some d) = (Inr g, w2)"
    using assms cp ld by (simp add: load_graph_from_format_def)
  with rm show "\<exists>w2. os_remove w1 (d @ ''/'' @ ''tmp_rdf_file.rdf'') = Some w2
                  \<and> load_graph_from_format w p (Some d) = (Inr g, w2)"
    by blast
qed

theorem load_graph_from_format_fallback_witness:
  "isfile accent_world (''/d/caf'' @ [CHR 0xE9] @ ''.ttl'')
   \<and> load_graph accent_world (''/d/caf'' @ [CHR 0xE9] @ ''.ttl'') = Inl IOError_2
   \<and> load_graph_from_format accent_world (''/d/caf'' @ [CHR 0xE9] @ ''.ttl'') None
        = (Inl IOError_2, accent_world)
   \<and> fst (load_graph_from_format accent_world (''/d/caf'' @ [CHR 0xE9] @ ''.ttl'') (Some ''/tmp''))
        = Inr \<lparr>store = [(ex ''Foo'', RDF_type, d2rq ''ClassMap'')], namespace_manager = []\<rparr>
   \<and> fs_root (snd (load_graph_from_format accent_world (''/d/caf'' @ [CHR 0xE9] @ ''.ttl'') (Some ''/tmp'')))
        = fs_root accent_world"
proof -
  have a: "isfile accent_world (''/d/caf'' @ [CHR 0xE9] @ ''.ttl'')" by code_simp
  have b: "load_graph accent_world (''/d/caf'' @ [CHR 0xE9] @ ''.ttl'') = Inl IOError_2"
    by code_simp
  have c: "fst (load_graph_from_format accent_world (''/d/caf'' @ [CHR 0xE9] @ ''.ttl'') (Some ''/tmp''))
        = Inr \<lparr>store = [(ex ''Foo'', RDF_type, d2rq ''ClassMap'')], namespace_manager = []\<rparr>"
    by code_simp
  have d: "fs_root (snd (load_graph_from_format accent_world (''/d/caf'' @ [CHR 0xE9] @ ''.ttl'') (Some ''/tmp'')))
        = fs_root accent_world"
    by code_simp
  from a b c d load_graph_from_format_fallback [OF a b, of "''/tmp''"] show ?thesis
    by simp
qed

lemma scan_types_found:
  "fst (scan_types cur_name ts acc) =
     (fst acc \<or> list_ex (\<lambda>t. local_name (node_str (fst t)) = cur_name) ts)"
  by (induction cur_name ts acc rule: scan_types.induct) auto

lemma validate_file_loaded:
  assumes "load_graph_from_format w cur_path tmp = (Inr g, w1)"
  shows "validate_file w cur_path tmp =
     (Inr (if list_ex (\<lambda>t. fst (snd t) = RDF_type
                 \<and> local_name (node_str (fst t)) = strip_extension (basename cur_path)) (store g)
           then Some g else None), w1)"
proof -
  have "list_ex (\<lambda>t. local_name (node_str (fst t)) = n)
          (graph_triples (None, Some RDF_type, None) ts)
        = list_ex (\<lambda>t. fst (snd t) = RDF_type \<and> local_name (node_str (fst t)) = n) ts"
    for n and ts :: "triple list"
    by (induction ts) (auto simp: graph_triples_def)
  then show ?thesis
    using assms by (simp add: validate_file_def Let_def scan_types_found)
qed

text \<open>With two dots and no line feed, the name is cut at its first dot.\<close>

lemma strip_extension_first_dot:
  "LF \<notin> set b \<Longrightarrow> 2 \<le> length (filter (\<lambda>c. c = CHR ''.'') b) \<Longrightarrow>
   strip_extension b = takeWhile (\<lambda>c. c \<noteq> CHR ''.'') b"
proof (induction b)
  case Nil
  then show ?case by simp
next
  case (Cons c cs)
  show ?case
  proof (cases "c = CHR ''.''")
    case True
    with Cons.prems have "cs \<noteq> []" and "LF \<notin> set cs" by auto
    with True show ?thesis by (simp add: dot_plus_end_no_LF)
  next
    case False
    with Cons show ?thesis by simp
  qed
qed

text \<open>
  Claim C10, as stated, fails for a name with a line feed right after its first dot:
  the pattern does not match at that dot, the name is cut at the second one, and the
  file \<^verbatim>\<open>a.<LF>b.c\<close> validates on a resource named \<^verbatim>\<open>a.<LF>b\<close> though it declares no
  typed resource named \<^verbatim>\<open>a\<close>.
\<close>

theorem validate_file_line_feed_counterexample:
  "fst (validate_file (example_world dots_tree) (''/v/a.'' @ [LF] @ ''b.c'') None)
     = Inr (Some \<lparr>store = [(ex (''a.'' @ [LF] @ ''b''), RDF_type, d2rq ''ClassMap'')],
                  namespace_manager = []\<rparr>)
   \<and> basename (''/v/a.'' @ [LF] @ ''b.c'') = ''a.'' @ [LF] @ ''b.c''
   \<and> length (filter (\<lambda>c. c = CHR ''.'') (basename (''/v/a.'' @ [LF] @ ''b.c''))) = 2
   \<and> takeWhile (\<lambda>c. c \<noteq> CHR ''.'') (basename (''/v/a.'' @ [LF] @ ''b.c'')) = ''a''
   \<and> local_name (node_str (ex (''a.'' @ [LF] @ ''b''))) = ''a.'' @ [LF] @ ''b''"
  by code_simp

text \<open>
  Claim C10, amended: for a file that loads, with a base name that has more than one dot
  and no line feed, the validator returns a graph exactly when the file declares a typed
  resource whose local name is the part of the base name before its first dot. For
  every file that loads: when a typed resource bears the name the validator computes,
  validation succeeds, and whatever graph the validator returns is the loaded graph
  as a whole.
\<close>

theorem validate_file_first_dot:
  assumes "load_graph_from_format w cur_path tmp = (Inr g, w1)"
  shows "(LF \<notin> set (basename cur_path)
           \<and> 2 \<le> length (filter (\<lambda>c. c = CHR ''.'') (basename cur_path))
          \<longrightarrow> (validate_file w cur_path tmp = (Inr (Some g), w1))
               = (\<exists>t \<in> set (store g). fst (snd t) = RDF_type
                    \<and> local_name (node_str (fst t))
                        = takeWhile (\<lambda>c. c \<noteq> CHR ''.'') (basename cur_path)))
     \<and> ((\<exists>t \<in> set (store g). fst (snd t) = RDF_type
             \<and> local_name (node_str (fst t)) = strip_extension (basename cur_path))
          \<longrightarrow> validate_file w cur_path tmp = (Inr (Some g), w1))
     \<and> (\<forall>g1. fst (validate_file w cur_path tmp) = Inr (Some g1) \<longrightarrow> g1 = g)"
proof -
  let ?P = "\<lambda>n. \<exists>t \<in> set (store g). fst (snd t) = RDF_type \<and> local_name (node_str (fst t)) = n"
  have v: "validate_file w cur_path tmp =
     (Inr (if ?P (strip_extension (basename cur_path)) then Some g else None), w1)"
    using validate_file_loaded [OF assms] by (simp add: list_ex_iff)
  have one: "(validate_file w cur_path tmp = (Inr (Some g), w1))
      = ?P (takeWhile (\<lambda>c. c \<noteq> CHR ''.'') (basename cur_path))"
    if "LF \<notin> set (basename cur_path)
        \<and> 2 \<le> length (filter (\<lambda>c. c = CHR ''.'') (basename cur_path))"
  proof -
    from that have "strip_extension (basename cur_path)
        = takeWhile (\<lambda>c. c \<noteq> CHR ''.'') (basename cur_path)"
      by (simp add: strip_extension_first_dot)
    then show ?thesis unfolding v by simp
  qed
  have two: "validate_file w cur_path tmp = (Inr (Some g), w1)"
    if "?P (strip_extension (basename cur_path))"
    unfolding v using that by simp
  have three: "g1 = g" if "fst (validate_file w cur_path tmp) = Inr (Some g1)" for g1
    using that unfolding v by (simp split: if_splits)
  from one two three show ?thesis by blast
qed

theorem validate_file_first_dot_witness:
  "load_graph_from_format (example_world dots_tree) ''/v/map.v2.ttl'' None
     = (Inr \<lparr>store = [(ex ''map'', RDF_type, d2rq ''ClassMap'')], namespace_manager = []\<rparr>,
        example_world dots_tree)
   \<and> LF \<notin> set (basename ''/v/map.v2.ttl'')
   \<and> 2 \<le> length (filter (\<lambda>c. c = CHR ''.'') (basename ''/v/map.v2.ttl''))
   \<and> takeWhile (\<lambda>c. c \<noteq> CHR ''.'') (basename ''/v/map.v2.ttl'') = ''map''
   \<and> validate_file (example_world dots_tree) ''/v/map.v2.ttl'' None
     = (Inr (Some \<lparr>store = [(ex ''map'', RDF_type, d2rq ''ClassMap'')], namespace_manager = []\<rparr>),
        example_world dots_tree)"
proof -
  let ?g = "\<lparr>store = [(ex ''map'', RDF_type, d2rq ''ClassMap'')], namespace_manager = []\<rparr>"
  let ?w = "example_world dots_tree"
  have f: "fst (load_graph_from_format ?w ''/v/map.v2.ttl'' None) = Inr ?g"
    by code_simp
  then obtain w1 where p: "load_graph_from_format ?w ''/v/map.v2.ttl'' None = (Inr ?g, w1)"
    by (metis prod.collapse)
  have "scratch_free ?w None" by (simp add: scratch_free_def)
  from load_graph_from_format_world [OF this p] p
  have a: "load_graph_from_format ?w ''/v/map.v2.ttl'' None = (Inr ?g, ?w)"
    by simp
  have b: "LF \<notin> set (basename ''/v/map.v2.ttl'')" by code_simp
  have c: "2 \<le> length (filter (\<lambda>c. c = CHR ''.'') (basename ''/v/map.v2.ttl''))" by code_simp
  have d: "takeWhile (\<lambda>c. c \<noteq> CHR ''.'') (basename ''/v/map.v2.ttl'') = ''map''" by code_simp
  have e: "local_name (node_str (ex ''map'')) = ''map''" by code_simp
  have ex_t: "\<exists>t \<in> set (store ?g). fst (snd t) = RDF_type
      \<and> local_name (node_str (fst t)) = takeWhile (\<lambda>c. c \<noteq> CHR ''.'') (basename ''/v/map.v2.ttl'')"
    unfolding d using e by simp
  from validate_file_first_dot [OF a] b c ex_t
  have v: "validate_file ?w ''/v/map.v2.ttl'' None = (Inr (Some ?g), ?w)"
    by blast
  from a b c d v show ?thesis by blast
qed

section \<open>One merge\<close>

lemma merge_graph_known_refs:
  assumes "\<And>k. set (references_of k g) \<subseteq> ref_set k st"
  shows "merge_graph w file_path g st = Inr (add_declared_namespaces g (copy_triples (store g) st))"
proof -
  let ?s0 = "add_declared_namespaces g (copy_triples (store g) st)"
  have "grows st ?s0"
    using grows_trans [OF grows_copy_triples grows_add_declared_namespaces] .
  then have r: "set (references_of k g) \<subseteq> ref_set k ?s0" for k
    using assms [of k] ref_set_grows [of st ?s0 k] by blast
  show ?thesis
    by (simp add: merge_graph_def Let_def copy_references_known [OF r])
qed


lemma parse_file_cases:
  assumes "parse_file w file_path st = Inr (st1, w1)"
  obtains (skipped) r where "validate_file w file_path (tmp_dir st) = (Inr r, w1)"
      and "r = None \<or> (\<exists>g. r = Some g \<and> store g = [])" and "st1 = clear_orphans st"
    | (merged) g st2 where "validate_file w file_path (tmp_dir st) = (Inr (Some g), w1)"
      and "store g \<noteq> []" and "merge_graph w1 file_path g st = Inr st2"
      and "st1 = clear_orphans st2"
  using assms
  by (auto simp: parse_file_def split: prod.splits sum.splits option.splits if_splits)

lemma parse_file_grows:
  assumes "parse_file w file_path st = Inr (st1, w1)"
  shows "grows st st1"
  using assms
proof (cases rule: parse_file_cases)
  case (skipped r)
  then show ?thesis by (simp add: grows_clear_orphans)
next
  case (merged g st2)
  from merge_graph_grows [OF merged(3)] have "grows st st2" by simp
  with merged(4) show ?thesis
    using grows_trans [OF _ grows_clear_orphans] by blast
qed

lemma parse_file_world:
  assumes "scratch_free w (tmp_dir st)" and "parse_file w file_path st = Inr (st1, w1)"
  shows "w1 = w"
  using assms(2)
proof (cases rule: parse_file_cases)
  case (skipped r)
  from validate_file_world [OF assms(1) skipped(1)] show ?thesis .
next
  case (merged g st2)
  from validate_file_world [OF assms(1) merged(1)] show ?thesis .
qed

lemma parse_file_covered:
  assumes "parse_file w file_path st = Inr (st1, w1)"
    and "fst (validate_file w file_path (tmp_dir st)) = Inr (Some g)" and "store g \<noteq> []"
  shows "covered g st1"
  using assms(1)
proof (cases rule: parse_file_cases)
  case (skipped r)
  with assms(2,3) show ?thesis by auto
next
  case (merged g' st2)
  with assms(2) have "g' = g" by simp
  with merge_graph_grows [OF merged(3)] have "covered g st2" by simp
  with merged(4) show ?thesis
    using covered_grows [OF _ grows_clear_orphans] by blast
qed

lemma parse_file_again:
  assumes "parse_file w file_path st = Inr (st1, w1)"
    and "\<And>g. fst (validate_file w file_path (tmp_dir st)) = Inr (Some g) \<Longrightarrow> store g \<noteq> []
           \<Longrightarrow> covered g st"
  shows "same_named st st1"
  using assms(1)
proof (cases rule: parse_file_cases)
  case (skipped r)
  then show ?thesis by (simp add: same_named_clear_orphans)
next
  case (merged g st2)
  from merged(1,2) assms(2) have "covered g st" by simp
  from merge_graph_covered [OF this, of w1 file_path] merged(3) have "same_named st st2"
    by auto
  with merged(4) show ?thesis
    using same_named_trans [OF _ same_named_clear_orphans] by blast
qed

text \<open>
  Claim C9: a merge of a file that does not validate returns the parser with the orphan
  pass applied to the Final Mapping and nothing else changed; the pass adds no statement.
  The second part is a run where such a merge removes a statement: the merge of
  \<^verbatim>\<open>/c/chain.ttl\<close> leaves the statement of the blank node \<^verbatim>\<open>b2\<close> behind, and the merge of
  \<^verbatim>\<open>/c/other.ttl\<close>, which does not validate, removes it.
\<close>

theorem parse_file_invalid:
  "(validate_file w file_path (tmp_dir st) = (Inr None, w1) \<longrightarrow>
      parse_file w file_path st
        = Inr (st\<lparr>final_mapping := (final_mapping st)
                    \<lparr>store := clear_orphan_blank_nodes (store (final_mapping st))\<rparr>\<rparr>, w1)
      \<and> set (clear_orphan_blank_nodes (store (final_mapping st))) \<subseteq> set (store (final_mapping st)))
   \<and> (case parse_file (example_world chain_tree) ''/c/chain.ttl'' (init [] None) of
         Inl e \<Rightarrow> False
       | Inr (st0, w0) \<Rightarrow>
           store (final_mapping st0)
             = [(ex ''chain'', RDF_type, d2rq ''ClassMap''), (BNode ''b2'', ex ''q'', Literal ''v'')]
           \<and> fst (validate_file w0 ''/c/other.ttl'' (tmp_dir st0)) = Inr None
           \<and> (case parse_file w0 ''/c/other.ttl'' st0 of
                 Inl e \<Rightarrow> False
               | Inr (st1, w1) \<Rightarrow>
                   store (final_mapping st1) = [(ex ''chain'', RDF_type, d2rq ''ClassMap'')]))"
proof -
  have general: "parse_file w file_path st
        = Inr (st\<lparr>final_mapping := (final_mapping st)
                    \<lparr>store := clear_orphan_blank_nodes (store (final_mapping st))\<rparr>\<rparr>, w1)"
    if "validate_file w file_path (tmp_dir st) = (Inr None, w1)"
    using that by (simp add: parse_file_def clear_orphans_def)
  have run: "(case parse_file (example_world chain_tree) ''/c/chain.ttl'' (init [] None) of
         Inl e \<Rightarrow> False
       | Inr (st0, w0) \<Rightarrow>
           store (final_mapping st0)
             = [(ex ''chain'', RDF_type, d2rq ''ClassMap''), (BNode ''b2'', ex ''q'', Literal ''v'')]
           \<and> fst (validate_file w0 ''/c/other.ttl'' (tmp_dir st0)) = Inr None
           \<and> (case parse_file w0 ''/c/other.ttl'' st0 of
                 Inl e \<Rightarrow> False
               | Inr (st1, w1) \<Rightarrow>
                   store (final_mapping st1) = [(ex ''chain'', RDF_type, d2rq ''ClassMap'')]))"
    by code_simp
  from general run set_clear_orphan_blank_nodes show ?thesis by blast
qed

theorem parse_file_invalid_witness:
  "validate_file (example_world chain_tree) ''/c/other.ttl''
       (tmp_dir ((init [] None)\<lparr>final_mapping :=
           \<lparr>store = [(BNode ''b2'', ex ''q'', Literal ''v'')], namespace_manager = []\<rparr>\<rparr>))
     = (Inr None, example_world chain_tree)
   \<and> parse_file (example_world chain_tree) ''/c/other.ttl''
       ((init [] None)\<lparr>final_mapping :=
           \<lparr>store = [(BNode ''b2'', ex ''q'', Literal ''v'')], namespace_manager = []\<rparr>\<rparr>)
     = Inr ((init [] None)\<lparr>final_mapping := \<lparr>store = [], namespace_manager = []\<rparr>\<rparr>,
            example_world chain_tree)"
proof -
  let ?w = "example_world chain_tree"
  let ?st = "(init [] None)\<lparr>final_mapping :=
           \<lparr>store = [(BNode ''b2'', ex ''q'', Literal ''v'')], namespace_manager = []\<rparr>\<rparr>"
  have t: "tmp_dir ?st = None" by (simp add: init_def)
  have f: "fst (validate_file ?w ''/c/other.ttl'' None) = Inr None" by code_simp
  have v: "validate_file ?w ''/c/other.ttl'' (tmp_dir ?st) = (Inr None, ?w)"
    unfolding t using f validate_file_None_world [of ?w "''/c/other.ttl''"]
    by (simp add: prod_eq_iff)
  have c: "clear_orphan_blank_nodes [(BNode ''b2'', ex ''q'', Literal ''v'')] = []"
    by code_simp
  from parse_file_invalid [of ?w "''/c/other.ttl''" ?st ?w] v
  have "parse_file ?w ''/c/other.ttl'' ?st
        = Inr (?st\<lparr>final_mapping := (final_mapping ?st)
                    \<lparr>store := clear_orphan_blank_nodes (store (final_mapping ?st))\<rparr>\<rparr>, ?w)"
    by blast
  then have "parse_file ?w ''/c/other.ttl'' ?st
     = Inr ((init [] None)\<lparr>final_mapping := \<lparr>store = [], namespace_manager = []\<rparr>\<rparr>, ?w)"
    by (simp add: c init_def)
  with v show ?thesis by blast
qed

text \<open>
  Claim C1, as stated, fails. For the class-map set: the merge of \<^verbatim>\<open>/m/a.ttl\<close> puts the
  reference \<^verbatim>\<open>Foo\<close> into the class-map set (its file is in another directory, so
  nothing is imported), and the later merge of \<^verbatim>\<open>/n/Foo.ttl\<close> adds a statement whose
  subject is \<^verbatim>\<open>Foo\<close>. For the other sets, through the resolver: the merge of
  \<^verbatim>\<open>/m/c.ttl\<close> puts \<^verbatim>\<open>Db\<close> into the data-store set, and the later merge of \<^verbatim>\<open>/n/e.ttl\<close>,
  which refers to \<^verbatim>\<open>Db\<close> as a class map, imports a statement whose subject is \<^verbatim>\<open>Db\<close>.
\<close>

theorem resolved_subject_counterexample:
  "(case parse_file (example_world apart_tree) ''/m/a.ttl'' (init [] None) of
      Inl e \<Rightarrow> False
    | Inr (st, w) \<Rightarrow>
        ex ''Foo'' \<in> classmap_set st
        \<and> (ex ''Foo'', RDF_type, d2rq ''ClassMap'') \<notin> set (store (final_mapping st))
        \<and> (case parse_file w ''/n/Foo.ttl'' st of
              Inl e \<Rightarrow> False
            | Inr (st2, w2) \<Rightarrow>
                (ex ''Foo'', RDF_type, d2rq ''ClassMap'') \<in> set (store (final_mapping st2))))
   \<and> (case parse_file (example_world storage_tree) ''/m/c.ttl'' (init [] None) of
      Inl e \<Rightarrow> False
    | Inr (st, w) \<Rightarrow>
        ex ''Db'' \<in> database_set st
        \<and> (ex ''Db'', RDF_type, d2rq ''Database'') \<notin> set (store (final_mapping st))
        \<and> (case parse_file w ''/n/e.ttl'' st of
              Inl e \<Rightarrow> False
            | Inr (st2, w2) \<Rightarrow>
                (ex ''Db'', RDF_type, d2rq ''Database'') \<in> set (store (final_mapping st2))))"
  by code_simp

text \<open>
  Claim C1, amended: a member of one of the three sets stays a member through every
  merge; for a member of the translation-table set or of the data-store set, the
  loop of a merge that copies the statements of the freshly parsed file adds no
  statement with that subject; and a merge of a file all of whose references are in
  their sets already, so that the resolver is not called, adds no such statement at
  all. (Membership in the class-map set does not stop the copy, and the resolver may
  import statements of a member.)
\<close>

theorem copy_triples_resolved_subject:
  "(parse_file w file_path st = Inr (st1, w1) \<longrightarrow>
      classmap_set st \<subseteq> classmap_set st1
      \<and> translationtable_set st \<subseteq> translationtable_set st1
      \<and> database_set st \<subseteq> database_set st1)
   \<and> (fst t \<in> translationtable_set st \<union> database_set st
        \<and> t \<in> set (store (final_mapping (copy_triples ts st)))
       \<longrightarrow> t \<in> set (store (final_mapping st)))
   \<and> (parse_file w file_path st = Inr (st1, w1)
        \<and> validate_file w file_path (tmp_dir st) = (Inr (Some g), w1)
        \<and> (\<forall>k. set (references_of k g) \<subseteq> ref_set k st)
        \<and> fst t \<in> translationtable_set st \<union> database_set st
        \<and> t \<in> set (store (final_mapping st1))
       \<longrightarrow> t \<in> set (store (final_mapping st)))"
proof -
  have one: "classmap_set st \<subseteq> classmap_set st1
      \<and> translationtable_set st \<subseteq> translationtable_set st1
      \<and> database_set st \<subseteq> database_set st1"
    if "parse_file w file_path st = Inr (st1, w1)"
    using parse_file_grows [OF that] by (simp add: grows_def)
  have two: "t \<in> set (store (final_mapping st))"
    if "fst t \<in> translationtable_set st \<union> database_set st
        \<and> t \<in> set (store (final_mapping (copy_triples ts st)))"
    using that by (auto simp: copy_triples_store)
  have three: "t \<in> set (store (final_mapping st))"
    if a: "parse_file w file_path st = Inr (st1, w1)
        \<and> validate_file w file_path (tmp_dir st) = (Inr (Some g), w1)
        \<and> (\<forall>k. set (references_of k g) \<subseteq> ref_set k st)
        \<and> fst t \<in> translationtable_set st \<union> database_set st
        \<and> t \<in> set (store (final_mapping st1))"
  proof -
    from a have pf: "parse_file w file_path st = Inr (st1, w1)"
      and v: "validate_file w file_path (tmp_dir st) = (Inr (Some g), w1)"
      and refs: "\<And>k. set (references_of k g) \<subseteq> ref_set k st"
      and mem: "fst t \<in> translationtable_set st \<union> database_set st"
      and t1: "t \<in> set (store (final_mapping st1))"
      by simp_all
    from pf show ?thesis
    proof (cases rule: parse_file_cases)
      case (skipped r)
      with t1 set_clear_orphan_blank_nodes [of "store (final_mapping st)"] show ?thesis
        by auto
    next
      case (merged g' st2)
      with v have "g' = g" by simp
      with merged(3) merge_graph_known_refs [of g st w1 file_path, OF refs]
      have st2: "st2 = add_declared_namespaces g (copy_triples (store g) st)" by simp
      from t1 merged(4) set_clear_orphan_blank_nodes [of "store (final_mapping st2)"]
      have "t \<in> set (store (final_mapping st2))" by auto
      with st2 mem show ?thesis
        by (auto simp: copy_triples_store)
    qed
  qed
  from one two three show ?thesis by blast
qed

theorem copy_triples_resolved_subject_witness:
  "ex ''T'' \<in> translationtable_set ((init [] None)\<lparr>translationtable_set := {ex ''T''}\<rparr>)
              \<union> database_set ((init [] None)\<lparr>translationtable_set := {ex ''T''}\<rparr>)
   \<and> (ex ''T'', ex ''p'', Literal ''v'')
        \<notin> set (store (final_mapping (copy_triples
                  [(ex ''T'', ex ''p'', Literal ''v''), (ex ''U'', ex ''p'', Literal ''v'')]
                  ((init [] None)\<lparr>translationtable_set := {ex ''T''}\<rparr>))))
   \<and> (ex ''U'', ex ''p'', Literal ''v'')
        \<in> set (store (final_mapping (copy_triples
                  [(ex ''T'', ex ''p'', Literal ''v''), (ex ''U'', ex ''p'', Literal ''v'')]
                  ((init [] None)\<lparr>translationtable_set := {ex ''T''}\<rparr>))))"
proof -
  let ?st = "(init [] None)\<lparr>translationtable_set := {ex ''T''}\<rparr>"
  let ?ts = "[(ex ''T'', ex ''p'', Literal ''v''), (ex ''U'', ex ''p'', Literal ''v'')]"
  have a: "ex ''T'' \<in> translationtable_set ?st \<union> database_set ?st" by simp
  have b: "(ex ''T'', ex ''p'', Literal ''v'') \<notin> set (store (final_mapping ?st))"
    by (simp add: init_def empty_graph_def)
  have c: "(ex ''U'', ex ''p'', Literal ''v'') \<in> set (store (final_mapping (copy_triples ?ts ?st)))"
    by code_simp
  from copy_triples_resolved_subject [where st = ?st and t = "(ex ''T'', ex ''p'', Literal ''v'')" and ts = ?ts] a b
  have "(ex ''T'', ex ''p'', Literal ''v'') \<notin> set (store (final_mapping (copy_triples ?ts ?st)))"
    by auto
  with a c show ?thesis by blast
qed

section \<open>Two passes over the same input\<close>

lemma parse_files_append:
  "parse_files w (xs @ ys) st =
     (case parse_files w xs st of Inl e \<Rightarrow> Inl e | Inr (st1, w1) \<Rightarrow> parse_files w1 ys st1)"
  by (induction xs arbitrary: w st) (auto split: sum.splits)

text \<open>
  The first pass: the world stays, the parser grows, and every graph that was merged
  is covered in the end.
\<close>

lemma parse_files_first_pass:
  assumes "scratch_free w (tmp_dir st)" and "parse_files w ps st = Inr (st1, w1)"
  shows "w1 = w \<and> grows st st1
     \<and> (\<forall>f \<in> set ps. \<forall>g. fst (validate_file w f (tmp_dir st)) = Inr (Some g) \<and> store g \<noteq> []
            \<longrightarrow> covered g st1)"
  using assms
proof (induction ps arbitrary: st)
  case Nil
  then show ?case by (simp add: grows_refl)
next
  case (Cons f ps)
  from Cons.prems(2) obtain sa wa where
    pf: "parse_file w f st = Inr (sa, wa)" and rest: "parse_files wa ps sa = Inr (st1, w1)"
    by (auto split: sum.splits)
  from parse_file_world [OF Cons.prems(1) pf] have wa: "wa = w" .
  from parse_file_grows [OF pf] have ga: "grows st sa" .
  then have tmp: "tmp_dir sa = tmp_dir st" by (simp add: grows_def)
  from Cons.IH [of sa] Cons.prems(1) rest wa tmp
  have ih: "w1 = w" "grows sa st1"
    "\<forall>f \<in> set ps. \<forall>g. fst (validate_file w f (tmp_dir st)) = Inr (Some g) \<and> store g \<noteq> []
        \<longrightarrow> covered g st1"
    by simp_all
  have head: "covered g st1"
    if "fst (validate_file w f (tmp_dir st)) = Inr (Some g)" and "store g \<noteq> []" for g
    using covered_grows [OF parse_file_covered [OF pf that] ih(2)] .
  from ih head grows_trans [OF ga ih(2)] show ?case by auto
qed

text \<open>A pass over files whose graphs are covered changes no named statement and no set.\<close>

lemma parse_files_second_pass:
  assumes "scratch_free w (tmp_dir st)" and "parse_files w ps st = Inr (st1, w1)"
    and "\<forall>f \<in> set ps. \<forall>g. fst (validate_file w f (tmp_dir st)) = Inr (Some g) \<and> store g \<noteq> []
            \<longrightarrow> covered g st"
  shows "same_named st st1 \<and> w1 = w"
  using assms
proof (induction ps arbitrary: st)
  case Nil
  then show ?case by (simp add: same_named_def)
next
  case (Cons f ps)
  from Cons.prems(2) obtain sa wa where
    pf: "parse_file w f st = Inr (sa, wa)" and rest: "parse_files wa ps sa = Inr (st1, w1)"
    by (auto split: sum.splits)
  from parse_file_world [OF Cons.prems(1) pf] have wa: "wa = w" .
  have sa: "same_named st sa"
    using parse_file_again [OF pf] Cons.prems(3) by simp
  then have tmp: "tmp_dir sa = tmp_dir st" by (simp add: same_named_def)
  have cov: "\<forall>f \<in> set ps. \<forall>g. fst (validate_file w f (tmp_dir sa)) = Inr (Some g) \<and> store g \<noteq> []
            \<longrightarrow> covered g sa"
    using Cons.prems(3) covered_grows [OF _ same_named_grows [OF sa]] tmp by auto
  from Cons.IH [of sa] Cons.prems(1) rest wa tmp cov
  have "same_named sa st1 \<and> w1 = w" by simp
  with same_named_trans [OF sa] show ?case by blast
qed

lemma parse_paths_files:
  "scratch_free w (tmp_dir st) \<Longrightarrow>
   parse_paths w paths st = parse_files w (concat (map (files_of w) paths)) st"
proof (induction paths arbitrary: st)
  case Nil
  show ?case by simp
next
  case (Cons p paths)
  show ?case
  proof (cases "parse_files w (files_of w p) st")
    case (Inl e)
    then show ?thesis by (simp add: parse_files_append)
  next
    case (Inr r)
    obtain sa wa where r: "r = (sa, wa)" by (cases r)
    from parse_files_first_pass [OF Cons.prems Inr [unfolded r]]
    have wa: "wa = w" and "grows st sa" by simp_all
    then have "scratch_free w (tmp_dir sa)" using Cons.prems by (simp add: grows_def)
    from Cons.IH [OF this] Inr r wa show ?thesis
      by (simp add: parse_files_append)
  qed
qed

text \<open>
  Claim C8, as stated, fails: \<^verbatim>\<open>F.ttl\<close> has a statement of the blank node \<^verbatim>\<open>b\<close>, which
  nothing points at when that file is merged, so the orphan pass removes it; \<^verbatim>\<open>G.ttl\<close>,
  merged next, points at \<^verbatim>\<open>b\<close>. In the second pass the statement of \<^verbatim>\<open>b\<close> comes back with
  \<^verbatim>\<open>F.ttl\<close> and stays, because the statement of \<^verbatim>\<open>G.ttl\<close> is already there.
\<close>

theorem second_pass_counterexample:
  "(case parse_paths (example_world shared_tree) [''/m''] (init [''/m''] None) of
      Inl e \<Rightarrow> False
    | Inr (st1, w1) \<Rightarrow>
        (BNode ''b'', ex ''q'', Literal ''v'') \<notin> set (store (final_mapping st1))
        \<and> (case parse_paths w1 [''/m''] st1 of
              Inl e \<Rightarrow> False
            | Inr (st2, w2) \<Rightarrow>
                (BNode ''b'', ex ''q'', Literal ''v'') \<in> set (store (final_mapping st2))))"
  by code_simp

text \<open>
  Claim C8, amended: for a loader that gives the same graph whenever it loads the same
  file, and when nothing sits at the path of the scratch copy (or no scratch
  directory is configured), a second pass of the driving loop over the same paths
  leaves the statements whose subject is not a blank node, and the three sets, as the
  first pass left them; the file system is as it was. Statements whose subject is a
  blank node can differ.
\<close>

theorem second_pass_named:
  assumes "scratch_free w (tmp_dir st)"
    and "parse_paths w paths st = Inr (st1, w1)"
    and "parse_paths w1 paths st1 = Inr (st2, w2)"
  shows "named (store (final_mapping st2)) = named (store (final_mapping st1))
     \<and> classmap_set st2 = classmap_set st1
     \<and> translationtable_set st2 = translationtable_set st1
     \<and> database_set st2 = database_set st1
     \<and> w1 = w \<and> w2 = w"
proof -
  let ?ps = "concat (map (files_of w) paths)"
  from assms(1,2) have p1: "parse_files w ?ps st = Inr (st1, w1)"
    by (simp add: parse_paths_files)
  from parse_files_first_pass [OF assms(1) p1]
  have w1: "w1 = w" and g: "grows st st1"
    and cov: "\<forall>f \<in> set ?ps. \<forall>g. fst (validate_file w f (tmp_dir st)) = Inr (Some g) \<and> store g \<noteq> []
            \<longrightarrow> covered g st1"
    by simp_all
  from g have tmp: "tmp_dir st1 = tmp_dir st" by (simp add: grows_def)
  with assms(1) have free: "scratch_free w (tmp_dir st1)" by simp
  from assms(3) w1 free have p2: "parse_files w ?ps st1 = Inr (st2, w2)"
    by (simp add: parse_paths_files)
  from parse_files_second_pass [OF free p2] cov tmp
  have "same_named st1 st2 \<and> w2 = w" by simp
  with w1 show ?thesis by (simp add: same_named_def)
qed

theorem second_pass_named_witness:
  "scratch_free (example_world shared_tree) (tmp_dir (init [''/m''] None))
   \<and> (case parse_paths (example_world shared_tree) [''/m''] (init [''/m''] None) of
        Inl e \<Rightarrow> False
      | Inr (st1, w1) \<Rightarrow>
          (ex ''G'', ex ''p'', BNode ''b'') \<in> named (store (final_mapping st1))
          \<and> (case parse_paths w1 [''/m''] st1 of
                Inl e \<Rightarrow> False
              | Inr (st2, w2) \<Rightarrow>
                  named (store (final_mapping st2)) = named (store (final_mapping st1))
                  \<and> classmap_set st2 = classmap_set st1))"
proof -
  let ?w = "example_world shared_tree"
  let ?st = "init [''/m''] None"
  have free: "scratch_free ?w (tmp_dir ?st)" by (simp add: scratch_free_def init_def)
  have run: "(case parse_paths ?w [''/m''] ?st of
        Inl e \<Rightarrow> False
      | Inr (st1, w1) \<Rightarrow>
          (ex ''G'', ex ''p'', BNode ''b'') \<in> named (store (final_mapping st1))
          \<and> (case parse_paths w1 [''/m''] st1 of Inl e \<Rightarrow> False | Inr (st2, w2) \<Rightarrow> True))"
    by code_simp
  obtain st1 w1 where p1: "parse_paths ?w [''/m''] ?st = Inr (st1, w1)"
    using run by (cases "parse_paths ?w [''/m''] ?st") (auto simp only: sum.case)
  from run have n: "(ex ''G'', ex ''p'', BNode ''b'') \<in> named (store (final_mapping st1))"
    and run2: "(case parse_paths w1 [''/m''] st1 of Inl e \<Rightarrow> False | Inr (st2, w2) \<Rightarrow> True)"
    unfolding p1 by (simp_all only: sum.case prod.case)
  obtain st2 w2 where p2: "parse_paths w1 [''/m''] st1 = Inr (st2, w2)"
    using run2 by (cases "parse_paths w1 [''/m''] st1") (auto simp only: sum.case)
  from second_pass_named [OF free p1 p2]
  have "named (store (final_mapping st2)) = named (store (final_mapping st1))
     \<and> classmap_set st2 = classmap_set st1"
    by blast
  with free n show ?thesis
    unfolding p1 sum.case prod.case p2 by blast
qed

end
